theory Spec2Isabelle
  imports Main "HOL-Library.Word"
begin

unbundle bit_operations_syntax

section \<open>Machine types, constants and faults\<close>

text \<open>
  The kernel is C on 64-bit RISC-V: \<^verbatim>\<open>uchar\<close> is 8 bits, \<^verbatim>\<open>short\<close> 16 bits,
  \<^verbatim>\<open>uint\<close> and \<^verbatim>\<open>int\<close> 32 bits. Unsigned arithmetic wraps, so \<^verbatim>\<open>uint\<close> values are
  words. Signed comparisons of a \<^verbatim>\<open>short\<close> (\<^verbatim>\<open>nlink > 0\<close>) read the word with \<open>sint\<close>.
  The reference count \<^verbatim>\<open>int ref\<close> is a mathematical integer: overflowing it is undefined
  behaviour in C and needs more than two thousand million references.
\<close>

type_synonym u8 = "8 word"
type_synonym short = "16 word"
type_synonym uint = "32 word"

text \<open>\<^verbatim>\<open>#define DIRSIZ 14\<close> (vfs.h).\<close>

definition DIRSIZ :: nat where
  "DIRSIZ = 14"

text \<open>The character \<^verbatim>\<open>'/'\<close>.\<close>

definition slash :: u8 where
  "slash = 0x2F"

text \<open>
  What does not return in C: \<^verbatim>\<open>panic\<close> (with its message), a null pointer that is
  dereferenced (a kernel trap), \<^verbatim>\<open>acquiresleep\<close> on a sleep-lock that is held, which
  suspends the only task of this sequential model for ever, and a loop that never ends.
\<close>

datatype fault = Panic string | NullDeref | Blocked | Diverges

section \<open>Paths: skipelem (fs.c)\<close>

text \<open>
  A \<^verbatim>\<open>char *\<close> into a path is the list of the bytes from the pointer on. The terminating
  NUL is the end of the list (reading there gives 0); a NUL inside the list terminates
  the C string as well, and the bytes after it are never read.
\<close>

fun deref :: "u8 list \<Rightarrow> u8" where
  "deref [] = 0"
| "deref (c # cs) = c"

text \<open>\<^verbatim>\<open>while(*path == '/') path++;\<close>\<close>

fun skip_slashes :: "u8 list \<Rightarrow> u8 list" where
  "skip_slashes [] = []"
| "skip_slashes (c # cs) = (if c = slash then skip_slashes cs else c # cs)"

text \<open>\<^verbatim>\<open>while(*path != '/' && *path != 0) path++;\<close>\<close>

fun skip_name :: "u8 list \<Rightarrow> u8 list" where
  "skip_name [] = []"
| "skip_name (c # cs) = (if c \<noteq> slash \<and> c \<noteq> 0 then skip_name cs else c # cs)"

text \<open>
  \<^verbatim>\<open>memmove(dst, src, k)\<close> on a buffer \<open>dst\<close>: its first \<open>k\<close> bytes become the first \<open>k\<close>
  bytes at \<open>src\<close>, the others stay.
\<close>

definition memmove :: "u8 list \<Rightarrow> u8 list \<Rightarrow> nat \<Rightarrow> u8 list" where
  "memmove dst src k = take k src @ drop k dst"

text \<open>
  \<^verbatim>\<open>skipelem(path, name)\<close>: \<open>None\<close> is the null pointer (and \<open>name\<close> is untouched);
  \<open>Some (rest, name')\<close> is the returned pointer and the buffer \<open>name\<close> afterwards.
  \<open>len = path - s\<close> is the difference of the two pointers.
\<close>

definition skipelem :: "u8 list \<Rightarrow> u8 list \<Rightarrow> (u8 list \<times> u8 list) option" where
  "skipelem path name =
     (let s = skip_slashes path in
      if deref s = 0 then None
      else
        let p = skip_name s;
            len = length s - length p;
            name' = (if len \<ge> DIRSIZ then memmove name s DIRSIZ
                     else (memmove name s len)[len := 0])
        in Some (skip_slashes p, name'))"

section \<open>Properties of skipelem\<close>

lemma skip_slashes_replicate:
  "skip_slashes (replicate k slash @ r) = skip_slashes r"
  by (induction k) simp_all

lemma skip_slashes_id:
  "r = [] \<or> hd r \<noteq> slash \<Longrightarrow> skip_slashes r = r"
  by (cases r) auto

lemma skip_name_elem:
  "slash \<notin> set e \<Longrightarrow> 0 \<notin> set e \<Longrightarrow> r = [] \<or> hd r = slash \<or> hd r = 0 \<Longrightarrow>
   skip_name (e @ r) = r"
  by (induction e) (auto, (cases r; auto)+)

text \<open>
  C7. Every path is some slashes followed either by nothing (the end of the string) or by
  an element \<open>elem\<close> (non-empty, without slash or NUL), then \<open>j\<close> slashes, then the rest
  (which starts with neither a slash nor, when \<open>j = 0\<close>, anything but the terminator).
  In the first case skipelem returns null. In the second it returns the rest, and
  \<open>name\<close> holds the element followed by a NUL when the element is shorter than DIRSIZ,
  and exactly the first DIRSIZ bytes of the element, with no NUL among them, otherwise.
\<close>

theorem skipelem_spec:
  "(deref r = 0 \<longrightarrow> skipelem (replicate k slash @ r) name = None) \<and>
   (elem \<noteq> [] \<and> slash \<notin> set elem \<and> 0 \<notin> set elem \<and> length name = DIRSIZ \<and>
    (rest = [] \<or> hd rest \<noteq> slash) \<and> (j = 0 \<longrightarrow> deref rest = 0) \<longrightarrow>
    skipelem (replicate k slash @ elem @ replicate j slash @ rest) name =
      Some (rest,
            if length elem < DIRSIZ
            then elem @ 0 # drop (Suc (length elem)) name
            else take DIRSIZ elem) \<and>
    (length elem \<ge> DIRSIZ \<longrightarrow> 0 \<notin> set (take DIRSIZ elem) \<and> length (take DIRSIZ elem) = DIRSIZ))"
proof (intro conjI impI)
  assume "deref r = 0"
  then have "deref (skip_slashes r) = 0"
    by (cases r) (auto simp: slash_def)
  then show "skipelem (replicate k slash @ r) name = None"
    by (simp add: skipelem_def skip_slashes_replicate)
next
  assume a: "elem \<noteq> [] \<and> slash \<notin> set elem \<and> 0 \<notin> set elem \<and> length name = DIRSIZ \<and>
    (rest = [] \<or> hd rest \<noteq> slash) \<and> (j = 0 \<longrightarrow> deref rest = 0)"
  let ?tail = "replicate j slash @ rest"
  have s: "skip_slashes (replicate k slash @ elem @ ?tail) = elem @ ?tail"
    using a by (cases elem) (auto simp: skip_slashes_replicate)
  have d: "deref (elem @ ?tail) \<noteq> 0"
    using a by (cases elem) auto
  have t: "?tail = [] \<or> hd ?tail = slash \<or> hd ?tail = 0"
    using a by (cases j; cases rest) auto
  have p: "skip_name (elem @ ?tail) = ?tail"
    using a t by (intro skip_name_elem) auto
  have r: "skip_slashes ?tail = rest"
    using a by (simp add: skip_slashes_replicate skip_slashes_id)
  have len: "length (elem @ ?tail) - length ?tail = length elem"
    by simp
  have short: "length elem < DIRSIZ \<Longrightarrow>
      (memmove name (elem @ ?tail) (length elem))[length elem := 0]
        = elem @ 0 # drop (Suc (length elem)) name"
    using a by (simp add: memmove_def list_update_append upd_conv_take_nth_drop
        Cons_nth_drop_Suc [symmetric] drop_Suc)
  have long: "DIRSIZ \<le> length elem \<Longrightarrow> memmove name (elem @ ?tail) DIRSIZ = take DIRSIZ elem"
    using a by (simp add: memmove_def)
  show "skipelem (replicate k slash @ elem @ ?tail) name =
      Some (rest, if length elem < DIRSIZ then elem @ 0 # drop (Suc (length elem)) name
                  else take DIRSIZ elem)"
    unfolding skipelem_def Let_def s p r len using d short long by auto
next
  assume a: "elem \<noteq> [] \<and> slash \<notin> set elem \<and> 0 \<notin> set elem \<and> length name = DIRSIZ \<and>
    (rest = [] \<or> hd rest \<noteq> slash) \<and> (j = 0 \<longrightarrow> deref rest = 0)"
  assume "DIRSIZ \<le> length elem"
  then show "0 \<notin> set (take DIRSIZ elem)"
    using a by (auto dest: in_set_takeD)
next
  assume "DIRSIZ \<le> length elem"
  then show "length (take DIRSIZ elem) = DIRSIZ"
    by simp
qed

text \<open>
  The examples of the comment above skipelem: \<^verbatim>\<open>skipelem("///a//bb", name) = "bb"\<close>
  setting name to "a", and \<^verbatim>\<open>skipelem("////", name) = 0\<close>; and an element of fifteen
  bytes, of which fourteen are kept.
\<close>

theorem skipelem_spec_witness:
  "skipelem [0x2F, 0x2F, 0x2F, 0x61, 0x2F, 0x2F, 0x62, 0x62]
       [1, 2, 3, 4, 5, 6, 7, 8, 9, 10, 11, 12, 13, 14]
     = Some ([0x62, 0x62], [0x61, 0, 3, 4, 5, 6, 7, 8, 9, 10, 11, 12, 13, 14]) \<and>
   skipelem [0x2F, 0x2F, 0x2F, 0x2F] [1, 2, 3, 4, 5, 6, 7, 8, 9, 10, 11, 12, 13, 14] = None \<and>
   skipelem [1, 2, 3, 4, 5, 6, 7, 8, 9, 10, 11, 12, 13, 14, 15, 0x2F, 0x62]
       [1, 2, 3, 4, 5, 6, 7, 8, 9, 10, 11, 12, 13, 14]
     = Some ([0x62], [1, 2, 3, 4, 5, 6, 7, 8, 9, 10, 11, 12, 13, 14])"
  using skipelem_spec [where r = "[]" and k = "Suc (Suc (Suc 0))" and elem = "[0x61]"
      and j = "Suc (Suc 0)" and rest = "[0x62, 0x62]"
      and name = "[1, 2, 3, 4, 5, 6, 7, 8, 9, 10, 11, 12, 13, 14]"]
    skipelem_spec [where r = "[]" and k = "Suc (Suc (Suc (Suc 0)))" and elem = "[0x61]"
      and j = 0 and rest = "[]" and name = "[1, 2, 3, 4, 5, 6, 7, 8, 9, 10, 11, 12, 13, 14]"]
    skipelem_spec [where r = "[]" and k = 0
      and elem = "[1, 2, 3, 4, 5, 6, 7, 8, 9, 10, 11, 12, 13, 14, 15]"
      and j = "Suc 0" and rest = "[0x62]"
      and name = "[1, 2, 3, 4, 5, 6, 7, 8, 9, 10, 11, 12, 13, 14]"]
  by (simp add: DIRSIZ_def slash_def)

section \<open>The VFS objects (vfs.h) and the kernel state\<close>

type_synonym uint64 = "64 word"

text \<open>A disk block or buffer, \<^verbatim>\<open>uchar data[BSIZE]\<close>: the byte at each index below BSIZE.\<close>

type_synonym block = "nat \<Rightarrow> u8"

text \<open>
  Modelled from the spec: \<^verbatim>\<open>struct xv6fs_super_block\<close> (xv6fs/fs.h is absent) is the
  cached image of disk block 1: magic, size, nblocks, ninodes, nlog, logstart, inodestart,
  bmapstart, all \<^verbatim>\<open>uint\<close>.
\<close>

record xv6fs_super_block =
  sb_magic :: uint
  sb_size :: uint
  sb_nblocks :: uint
  sb_ninodes :: uint
  sb_nlog :: uint
  sb_logstart :: uint
  sb_inodestart :: uint
  sb_bmapstart :: uint

text \<open>
  Modelled from the spec: \<^verbatim>\<open>struct xv6fs_inode\<close> (xv6fs/fs.h is absent), the payload
  \<^verbatim>\<open>inode->private\<close> points to, with the fields xv6fs/defs.h reads and writes. Of
  \<^verbatim>\<open>uint addrs[NDIRECT+1]\<close> only the indices 0 to NDIRECT are ever used.
\<close>

record xv6fs_inode =
  x_dev :: uint
  x_type :: short
  x_major :: short
  x_minor :: short
  x_nlink :: short
  x_size :: uint
  x_addrs :: "nat \<Rightarrow> uint"

text \<open>
  \<^verbatim>\<open>struct filesystem_operations *op\<close>: the repository has one operation table,
  \<^verbatim>\<open>xv6fs_ops\<close>; \<open>None\<close> is the null pointer.
\<close>

datatype fsops = XV6FS_OPS

text \<open>
  \<^verbatim>\<open>struct inode\<close> (vfs.h). \<open>i_lock\<close> is the sleep-lock (held or not); \<open>i_private\<close> is
  the payload \<^verbatim>\<open>private\<close> points to, which no other pointer shares (it comes from
  \<^verbatim>\<open>kalloc\<close> and is freed when the pointer is cleared), \<open>None\<close> for null. The
  back-pointer \<^verbatim>\<open>sb\<close> is written but never read by the code modelled here.
  \<open>i_ref\<close> is the 32 bits of \<^verbatim>\<open>int ref\<close>: \<open>sint\<close> reads it, and \<^verbatim>\<open>ref++\<close>, \<^verbatim>\<open>ref--\<close> wrap
  around as the compiled code does.
\<close>

record inode =
  i_op :: "fsops option"
  i_inum :: uint
  i_ref :: uint
  i_lock :: bool
  i_type :: short
  i_dev :: uint
  i_size :: uint
  i_nlink :: short
  i_private :: "xv6fs_inode option"

text \<open>
  The kernel state: \<^verbatim>\<open>itable.inode[NINODE]\<close> (a pointer to an inode is the index of its
  slot), the disk behind the buffer cache (\<^verbatim>\<open>bread(dev, blockno)\<close> reads
  \<open>disk dev blockno\<close>), the global \<^verbatim>\<open>sb\<close>, the current directory
  \<^verbatim>\<open>myproc()->cwd\<close>, and the user memory of the current process (\<open>None\<close> where no
  page is mapped).
\<close>

record kstate =
  itable :: "inode list"
  disk :: "uint \<Rightarrow> uint \<Rightarrow> block"
  sb :: xv6fs_super_block
  cwd :: nat
  umem :: "uint64 \<Rightarrow> u8 option"

text \<open>A computation that may not return: \<open>Inl\<close> the fault, \<open>Inr\<close> the result.\<close>

definition bindE :: "fault + 'a \<Rightarrow> ('a \<Rightarrow> fault + 'b) \<Rightarrow> fault + 'b" where
  "bindE m f = (case m of Inl e \<Rightarrow> Inl e | Inr v \<Rightarrow> f v)"

lemma bindE_Inl [simp]: "bindE (Inl e) f = Inl e"
  by (simp add: bindE_def)

lemma bindE_Inr [simp]: "bindE (Inr v) f = f v"
  by (simp add: bindE_def)

lemma bindE_cong [fundef_cong]:
  "m = m' \<Longrightarrow> (\<And>v. m' = Inr v \<Longrightarrow> f v = f' v) \<Longrightarrow> bindE m f = bindE m' f'"
  by (cases m') (simp_all add: bindE_def)

lemma bindE_eq_Inr:
  "(bindE m f = Inr r) = (\<exists>v. m = Inr v \<and> f v = Inr r)"
  by (cases m) simp_all


section \<open>The inode table: iget (fs.c)\<close>

text \<open>The test of the loop: \<^verbatim>\<open>ip->ref > 0 && ip->dev == dev && ip->inum == inum\<close>.\<close>

definition iget_match :: "uint \<Rightarrow> uint \<Rightarrow> inode \<Rightarrow> bool" where
  "iget_match dev inum ip = (0 < sint (i_ref ip) \<and> i_dev ip = dev \<and> i_inum ip = inum)"

text \<open>
  The loop of iget over the slots from index \<open>i\<close> on, \<open>emp\<close> being the empty slot
  remembered so far (\<^verbatim>\<open>empty\<close>): \<open>Inl i\<close> when slot \<open>i\<close> matches (the loop returns there),
  else \<open>Inr emp\<close> at the end of the table.
\<close>

fun iget_loop :: "inode list \<Rightarrow> nat \<Rightarrow> uint \<Rightarrow> uint \<Rightarrow> nat option \<Rightarrow> nat + nat option" where
  "iget_loop [] i dev inum emp = Inr emp"
| "iget_loop (ip # ips) i dev inum emp =
     (if iget_match dev inum ip then Inl i
      else iget_loop ips (Suc i) dev inum
             (if emp = None \<and> i_ref ip = 0 then Some i else emp))"

definition iget :: "uint \<Rightarrow> uint \<Rightarrow> kstate \<Rightarrow> fault + (nat \<times> kstate)" where
  "iget dev inum s =
     (case iget_loop (itable s) 0 dev inum None of
        Inl i \<Rightarrow>
          Inr (i, s\<lparr>itable := (itable s)[i := (itable s ! i)\<lparr>i_ref := i_ref (itable s ! i) + 1\<rparr>]\<rparr>)
      | Inr None \<Rightarrow> Inl (Panic ''iget: no inodes'')
      | Inr (Some e) \<Rightarrow>
          Inr (e, s\<lparr>itable := (itable s)[e := (itable s ! e)
                   \<lparr>i_dev := dev, i_inum := inum, i_ref := 1, i_private := None\<rparr>]\<rparr>))"

text \<open>
  Invariant 1 of the spec: among the slots with \<open>ref > 0\<close>, no pair (dev, inum) occurs
  twice.
\<close>

definition itable_unique :: "inode list \<Rightarrow> bool" where
  "itable_unique tbl =
     distinct (map (\<lambda>ip. (i_dev ip, i_inum ip)) (filter (\<lambda>ip. 0 < sint (i_ref ip)) tbl))"

text \<open>Example states for the closed instances below.\<close>

definition ex_inode :: "uint \<Rightarrow> uint \<Rightarrow> uint \<Rightarrow> inode" where
  "ex_inode dev inum r =
     \<lparr>i_op = Some XV6FS_OPS, i_inum = inum, i_ref = r, i_lock = False, i_type = 2,
      i_dev = dev, i_size = 0, i_nlink = 1, i_private = None\<rparr>"

definition ex_sb :: xv6fs_super_block where
  "ex_sb = \<lparr>sb_magic = 0x10203040, sb_size = 64, sb_nblocks = 32, sb_ninodes = 16,
            sb_nlog = 4, sb_logstart = 2, sb_inodestart = 6, sb_bmapstart = 8\<rparr>"

definition ex_state :: "inode list \<Rightarrow> kstate" where
  "ex_state tbl =
     \<lparr>itable = tbl, disk = (\<lambda>dev bno k. 0), sb = ex_sb, cwd = 0, umem = (\<lambda>a. None)\<rparr>"

text \<open>A file of five bytes in block 9 of a disk whose byte \<open>k\<close> of every block is \<open>k\<close>.\<close>

definition ex_payload :: "(nat \<Rightarrow> uint) \<Rightarrow> xv6fs_inode" where
  "ex_payload ad =
     \<lparr>x_dev = 1, x_type = 2, x_major = 0, x_minor = 0, x_nlink = 1, x_size = 0, x_addrs = ad\<rparr>"

definition ex_file :: "uint \<Rightarrow> (nat \<Rightarrow> uint) \<Rightarrow> inode" where
  "ex_file sz ad = (ex_inode 1 7 1)\<lparr>i_size := sz, i_private := Some (ex_payload ad)\<rparr>"

definition ex_disk_state :: "inode list \<Rightarrow> kstate" where
  "ex_disk_state tbl = (ex_state tbl)\<lparr>disk := (\<lambda>dev bno k. of_nat k)\<rparr>"

subsection \<open>Properties of iget\<close>

lemma iget_loop_Inl:
  "iget_loop xs k dev inum e = Inl i \<Longrightarrow>
   \<exists>n. i = k + n \<and> n < length xs \<and> iget_match dev inum (xs ! n)"
proof (induction xs arbitrary: k e)
  case Nil
  then show ?case by simp
next
  case (Cons x xs)
  show ?case
  proof (cases "iget_match dev inum x")
    case True
    with Cons.prems show ?thesis by auto
  next
    case False
    with Cons.prems have "iget_loop xs (Suc k) dev inum
        (if e = None \<and> i_ref x = 0 then Some k else e) = Inl i" by simp
    from Cons.IH [OF this] obtain n where "i = Suc k + n" "n < length xs"
      "iget_match dev inum (xs ! n)" by auto
    then show ?thesis by (intro exI [of _ "Suc n"]) simp
  qed
qed

lemma iget_loop_Inr_nomatch:
  "iget_loop xs k dev inum e = Inr r \<Longrightarrow> \<forall>ip\<in>set xs. \<not> iget_match dev inum ip"
  by (induction xs arbitrary: k e) (auto split: if_splits)

lemma iget_loop_match_Inl:
  "\<exists>ip\<in>set xs. iget_match dev inum ip \<Longrightarrow> \<exists>i. iget_loop xs k dev inum e = Inl i"
  by (induction xs arbitrary: k e) auto

lemma iget_loop_Inr_Some:
  "iget_loop xs k dev inum (Some x) = Inr r \<Longrightarrow> r = Some x"
  by (induction xs arbitrary: k) (auto split: if_splits)

lemma iget_loop_Inr_None:
  "iget_loop xs k dev inum None = Inr None \<Longrightarrow> \<forall>ip\<in>set xs. i_ref ip \<noteq> 0"
  by (induction xs arbitrary: k) (auto split: if_splits dest: iget_loop_Inr_Some)

lemma iget_loop_Inr_first:
  "iget_loop xs k dev inum None = Inr (Some i) \<Longrightarrow>
   \<exists>n. i = k + n \<and> n < length xs \<and> i_ref (xs ! n) = 0 \<and> (\<forall>j<n. i_ref (xs ! j) \<noteq> 0)"
proof (induction xs arbitrary: k)
  case Nil
  then show ?case by simp
next
  case (Cons x xs)
  show ?case
  proof (cases "i_ref x = 0")
    case True
    with Cons.prems have "i = k"
      by (auto split: if_splits dest: iget_loop_Inr_Some)
    with True show ?thesis by (intro exI [of _ 0]) simp
  next
    case False
    with Cons.prems have "iget_loop xs (Suc k) dev inum None = Inr (Some i)"
      by (auto split: if_splits)
    from Cons.IH [OF this] obtain n where n: "i = Suc k + n" "n < length xs"
      "i_ref (xs ! n) = 0" "\<forall>j<n. i_ref (xs ! j) \<noteq> 0" by auto
    with False show ?thesis
      by (intro exI [of _ "Suc n"]) (auto simp: nth_Cons split: nat.splits)
  qed
qed

lemma unique_update_same:
  "i < length xs \<Longrightarrow> P (g (xs ! i)) = P (xs ! i) \<Longrightarrow> f (g (xs ! i)) = f (xs ! i) \<Longrightarrow>
   map f (filter P (xs[i := g (xs ! i)])) = map f (filter P xs)"
  by (induction xs arbitrary: i) (auto split: nat.splits)

lemma set_filter_update_subset:
  "set (filter P (xs[i := y])) \<subseteq> insert y (set (filter P xs))"
  by (induction xs arbitrary: i) (auto split: nat.splits)

lemma unique_update_new:
  "i < length xs \<Longrightarrow> \<not> P (xs ! i) \<Longrightarrow> f y \<notin> f ` set (filter P xs) \<Longrightarrow>
   distinct (map f (filter P xs)) \<Longrightarrow> distinct (map f (filter P (xs[i := y])))"
proof (induction xs arbitrary: i)
  case Nil
  then show ?case by simp
next
  case (Cons x xs)
  show ?case
  proof (cases i)
    case 0
    with Cons.prems show ?thesis by auto
  next
    case (Suc k)
    with Cons.prems have ih: "distinct (map f (filter P (xs[k := y])))"
      by (intro Cons.IH) (auto split: if_splits)
    show ?thesis
    proof (cases "P x")
      case True
      have "f x \<notin> f ` set (filter P (xs[k := y]))"
      proof
        assume "f x \<in> f ` set (filter P (xs[k := y]))"
        then obtain z where z: "z \<in> set (filter P (xs[k := y]))" "f z = f x" by auto
        with set_filter_update_subset [of P xs k y] have "z = y \<or> z \<in> set (filter P xs)" by auto
        with z True Cons.prems show False by (auto simp: image_iff)
      qed
      with ih True Suc show ?thesis by simp
    next
      case False
      with ih Suc show ?thesis by simp
    qed
  qed
qed


lemma unique_update_key:
  "i < length xs \<Longrightarrow> f y = f (xs ! i) \<Longrightarrow> P (xs ! i) \<Longrightarrow>
   distinct (map f (filter P xs)) \<Longrightarrow> distinct (map f (filter P (xs[i := y])))"
proof (induction xs arbitrary: i)
  case Nil
  then show ?case by simp
next
  case (Cons x xs)
  show ?case
  proof (cases i)
    case 0
    with Cons.prems show ?thesis by auto
  next
    case (Suc k)
    with Cons.prems have k: "k < length xs" "f y = f (xs ! k)" "P (xs ! k)" by auto
    from Cons.prems have "distinct (map f (filter P xs))" by (auto split: if_splits)
    with k have ih: "distinct (map f (filter P (xs[k := y])))"
      by (intro Cons.IH)
    show ?thesis
    proof (cases "P x")
      case True
      have "f x \<notin> f ` set (filter P (xs[k := y]))"
      proof
        assume "f x \<in> f ` set (filter P (xs[k := y]))"
        then obtain z where z: "z \<in> set (filter P (xs[k := y]))" "f z = f x" by auto
        with set_filter_update_subset [of P xs k y] have d: "z = y \<or> z \<in> set (filter P xs)"
          by auto
        have m: "xs ! k \<in> set (filter P xs)"
          using k nth_mem [of k xs] by simp
        from d have "\<exists>w \<in> set (filter P xs). f w = f x"
        proof
          assume "z = y"
          with z k have "f (xs ! k) = f x" by simp
          with m show ?thesis by blast
        next
          assume "z \<in> set (filter P xs)"
          with z show ?thesis by blast
        qed
        with True Cons.prems show False by (auto simp: image_iff)
      qed
      with ih True Suc show ?thesis by simp
    next
      case False
      with ih Suc show ?thesis by simp
    qed
  qed
qed

text \<open>
  C5. iget returns an index of the table or panics with "iget: no inodes". When some slot
  matches (dev, inum) with \<open>ref > 0\<close>, the returned slot is a matching one (the only one,
  under the uniqueness invariant) and the state changes by its \<open>ref\<close> going up by one.
  Otherwise the returned slot is the first with \<open>ref = 0\<close>, and the state changes by
  that slot becoming (dev, inum, ref = 1, private = null). The uniqueness invariant is
  preserved. iget panics exactly when no slot matches and none has \<open>ref = 0\<close>. The disk
  is neither read nor written: replacing it changes nothing of the result but the disk
  itself.
\<close>

theorem iget_spec:
  "(case iget dev inum s of
      Inl e \<Rightarrow> e = Panic ''iget: no inodes''
    | Inr (i, s') \<Rightarrow>
        i < length (itable s) \<and>
        (if \<exists>ip\<in>set (itable s). iget_match dev inum ip
         then iget_match dev inum (itable s ! i) \<and>
              s' = s\<lparr>itable := (itable s)[i := (itable s ! i)\<lparr>i_ref := i_ref (itable s ! i) + 1\<rparr>]\<rparr>
         else i_ref (itable s ! i) = 0 \<and> (\<forall>j<i. i_ref (itable s ! j) \<noteq> 0) \<and>
              s' = s\<lparr>itable := (itable s)[i := (itable s ! i)
                     \<lparr>i_dev := dev, i_inum := inum, i_ref := 1, i_private := None\<rparr>]\<rparr>) \<and>
        (itable_unique (itable s) \<longrightarrow> itable_unique (itable s'))) \<and>
   ((\<exists>e. iget dev inum s = Inl e) =
      (\<forall>ip\<in>set (itable s). \<not> iget_match dev inum ip \<and> i_ref ip \<noteq> 0)) \<and>
   iget dev inum (s\<lparr>disk := d\<rparr>) =
      map_sum id (\<lambda>(i, s'). (i, s'\<lparr>disk := d\<rparr>)) (iget dev inum s)"
proof (intro conjI)
  show "iget dev inum (s\<lparr>disk := d\<rparr>) =
      map_sum id (\<lambda>(i, s'). (i, s'\<lparr>disk := d\<rparr>)) (iget dev inum s)"
    by (simp add: iget_def split: sum.splits option.splits)
next
  show "(\<exists>e. iget dev inum s = Inl e) =
      (\<forall>ip\<in>set (itable s). \<not> iget_match dev inum ip \<and> i_ref ip \<noteq> 0)"
  proof
    assume "\<exists>e. iget dev inum s = Inl e"
    then have r: "iget_loop (itable s) 0 dev inum None = Inr None"
      by (auto simp: iget_def split: sum.splits option.splits)
    from iget_loop_Inr_nomatch [OF r] iget_loop_Inr_None [OF r]
    show "\<forall>ip\<in>set (itable s). \<not> iget_match dev inum ip \<and> i_ref ip \<noteq> 0" by auto
  next
    assume a: "\<forall>ip\<in>set (itable s). \<not> iget_match dev inum ip \<and> i_ref ip \<noteq> 0"
    show "\<exists>e. iget dev inum s = Inl e"
    proof (cases "iget_loop (itable s) 0 dev inum None")
      case (Inl i)
      from iget_loop_Inl [OF Inl] obtain n where "n < length (itable s)"
        "iget_match dev inum (itable s ! n)" by auto
      with a nth_mem [of n "itable s"] show ?thesis by blast
    next
      case (Inr r)
      show ?thesis
      proof (cases r)
        case None
        with Inr show ?thesis by (simp add: iget_def)
      next
        case (Some i)
        with Inr iget_loop_Inr_first [of "itable s" 0 dev inum i]
        have "i < length (itable s)" "i_ref (itable s ! i) = 0" by auto
        with a nth_mem [of i "itable s"] show ?thesis by blast
      qed
    qed
  qed
next
  show "case iget dev inum s of
      Inl e \<Rightarrow> e = Panic ''iget: no inodes''
    | Inr (i, s') \<Rightarrow>
        i < length (itable s) \<and>
        (if \<exists>ip\<in>set (itable s). iget_match dev inum ip
         then iget_match dev inum (itable s ! i) \<and>
              s' = s\<lparr>itable := (itable s)[i := (itable s ! i)\<lparr>i_ref := i_ref (itable s ! i) + 1\<rparr>]\<rparr>
         else i_ref (itable s ! i) = 0 \<and> (\<forall>j<i. i_ref (itable s ! j) \<noteq> 0) \<and>
              s' = s\<lparr>itable := (itable s)[i := (itable s ! i)
                     \<lparr>i_dev := dev, i_inum := inum, i_ref := 1, i_private := None\<rparr>]\<rparr>) \<and>
        (itable_unique (itable s) \<longrightarrow> itable_unique (itable s'))"
  proof (cases "iget_loop (itable s) 0 dev inum None")
    case (Inl i)
    from iget_loop_Inl [OF Inl] have i: "i < length (itable s)" "iget_match dev inum (itable s ! i)"
      by auto
    then have ex: "\<exists>ip\<in>set (itable s). iget_match dev inum ip"
      using nth_mem [of i "itable s"] by blast
    have "itable_unique (itable s) \<longrightarrow>
        itable_unique ((itable s)[i := (itable s ! i)\<lparr>i_ref := i_ref (itable s ! i) + 1\<rparr>])"
      unfolding itable_unique_def using i
      by (intro impI unique_update_key) (auto simp: iget_match_def)
    with Inl i ex show ?thesis by (simp add: iget_def)
  next
    case (Inr r)
    from iget_loop_Inr_nomatch [OF Inr]
    have nm: "\<forall>ip\<in>set (itable s). \<not> iget_match dev inum ip" .
    show ?thesis
    proof (cases r)
      case None
      with Inr show ?thesis by (simp add: iget_def)
    next
      case (Some i)
      with Inr iget_loop_Inr_first [of "itable s" 0 dev inum i]
      have i: "i < length (itable s)" "i_ref (itable s ! i) = 0"
        "\<forall>j<i. i_ref (itable s ! j) \<noteq> 0" by auto
      let ?new = "(itable s ! i)\<lparr>i_dev := dev, i_inum := inum, i_ref := 1, i_private := None\<rparr>"
      have "(\<lambda>ip. (i_dev ip, i_inum ip)) ?new
          \<notin> (\<lambda>ip. (i_dev ip, i_inum ip)) ` set (filter (\<lambda>ip. 0 < sint (i_ref ip)) (itable s))"
        using nm by (auto simp: iget_match_def)
      then have "itable_unique (itable s) \<longrightarrow> itable_unique ((itable s)[i := ?new])"
        unfolding itable_unique_def using i by (intro impI unique_update_new) auto
      with Inr Some i nm show ?thesis by (simp add: iget_def)
    qed
  qed
qed


theorem iget_spec_witness:
  "itable_unique [ex_inode 1 5 1, ex_inode 0 0 0, ex_inode 1 7 2] \<and>
   map_sum id (\<lambda>(i, s'). (i, map i_ref (itable s'), itable_unique (itable s')))
     (iget 1 7 (ex_state [ex_inode 1 5 1, ex_inode 0 0 0, ex_inode 1 7 2]))
     = Inr (2, [1, 0, 3], True) \<and>
   map_sum id (\<lambda>(i, s'). (i, map i_ref (itable s'), itable_unique (itable s')))
     (iget 1 9 (ex_state [ex_inode 1 5 1, ex_inode 0 0 0, ex_inode 1 7 2]))
     = Inr (1, [1, 1, 2], True) \<and>
   iget 1 9 (ex_state [ex_inode 1 5 1, ex_inode 1 7 2]) = Inl (Panic ''iget: no inodes'')"
  using iget_spec [where dev = 1 and inum = 7
      and s = "ex_state [ex_inode 1 5 1, ex_inode 0 0 0, ex_inode 1 7 2]"]
    iget_spec [where dev = 1 and inum = 9
      and s = "ex_state [ex_inode 1 5 1, ex_inode 0 0 0, ex_inode 1 7 2]"]
    iget_spec [where dev = 1 and inum = 9 and s = "ex_state [ex_inode 1 5 1, ex_inode 1 7 2]"]
  by (simp add: iget_def ex_state_def ex_inode_def itable_unique_def iget_match_def)

section \<open>The on-disk layout and the block layer (xv6fs/defs.h)\<close>

text \<open>
  Modelled from the spec: the constants and macros of xv6fs/fs.h, stat.h and param.h, which
  are absent. The spec gives BSIZE = 512, NDIRECT = 12, NINDIRECT = BSIZE/4,
  MAXFILE = NDIRECT + NINDIRECT, ROOTINO = 1, ROOTDEV = 1, BPB = BSIZE*8 and
  IPB = BSIZE / sizeof(dinode), the dinode being 64 bytes: type, major, minor, nlink
  (16 bits each), size (32 bits) and NDIRECT+1 addresses (32 bits each), little-endian.
  The inode types are those of xv6's stat.h.
\<close>

definition BSIZE :: nat where
  "BSIZE = 512"

definition NDIRECT :: nat where
  "NDIRECT = 12"

definition NINDIRECT :: nat where
  "NINDIRECT = 128"

definition MAXFILE :: nat where
  "MAXFILE = NDIRECT + NINDIRECT"

definition IPB :: nat where
  "IPB = 8"

definition BPB :: nat where
  "BPB = BSIZE * 8"

definition ROOTDEV :: uint where
  "ROOTDEV = 1"

definition ROOTINO :: uint where
  "ROOTINO = 1"

definition T_DIR :: short where
  "T_DIR = 1"

definition T_FILE :: short where
  "T_FILE = 2"

definition T_DEVICE :: short where
  "T_DEVICE = 3"

text \<open>
  \<^verbatim>\<open>IBLOCK(i, sb) = i / IPB + sb.inodestart\<close> and \<^verbatim>\<open>BBLOCK(b, sb) = b / BPB + sb.bmapstart\<close>,
  as the \<^verbatim>\<open>uint\<close> passed to bread.
\<close>

definition IBLOCK :: "uint \<Rightarrow> xv6fs_super_block \<Rightarrow> uint" where
  "IBLOCK i sblk = i div 8 + sb_inodestart sblk"

definition BBLOCK :: "uint \<Rightarrow> xv6fs_super_block \<Rightarrow> uint" where
  "BBLOCK b sblk = b div 4096 + sb_bmapstart sblk"

text \<open>The byte offset of \<^verbatim>\<open>(struct dinode*)bp->data + inum%IPB\<close> in its block.\<close>

definition dinode_off :: "uint \<Rightarrow> nat" where
  "dinode_off inum = 64 * (unat inum mod IPB)"

text \<open>Little-endian fields of 16 and 32 bits at a byte offset of a block.\<close>

definition rd16 :: "block \<Rightarrow> nat \<Rightarrow> short" where
  "rd16 b off = ucast (b off) OR push_bit 8 (ucast (b (off + 1)))"

definition wr16 :: "block \<Rightarrow> nat \<Rightarrow> short \<Rightarrow> block" where
  "wr16 b off v = b(off := ucast v, off + 1 := ucast (drop_bit 8 v))"

definition rd32 :: "block \<Rightarrow> nat \<Rightarrow> uint" where
  "rd32 b off = ucast (b off) OR push_bit 8 (ucast (b (off + 1)))
      OR push_bit 16 (ucast (b (off + 2))) OR push_bit 24 (ucast (b (off + 3)))"

definition wr32 :: "block \<Rightarrow> nat \<Rightarrow> uint \<Rightarrow> block" where
  "wr32 b off v = b(off := ucast v, off + 1 := ucast (drop_bit 8 v),
       off + 2 := ucast (drop_bit 16 v), off + 3 := ucast (drop_bit 24 v))"

text \<open>
  The buffer cache is an external collaborator. \<^verbatim>\<open>bread\<close> gives the content of the
  block, \<^verbatim>\<open>bwrite\<close> stores a buffer's content; a buffer is the caller's copy between
  the two (every change the code makes to \<^verbatim>\<open>bp->data\<close> is followed by \<^verbatim>\<open>bwrite(bp)\<close>,
  but for a failed copy-in, which is taken to change nothing). \<^verbatim>\<open>brelse\<close> has no
  effect here.
\<close>

definition bread :: "uint \<Rightarrow> uint \<Rightarrow> kstate \<Rightarrow> block" where
  "bread dev bno s = disk s dev bno"

definition bwrite :: "uint \<Rightarrow> uint \<Rightarrow> block \<Rightarrow> kstate \<Rightarrow> kstate" where
  "bwrite dev bno data s = s\<lparr>disk := (disk s)(dev := (disk s dev)(bno := data))\<rparr>"

text \<open>\<^verbatim>\<open>bzero(dev, bno)\<close>: bread, \<^verbatim>\<open>memset(bp->data, 0, BSIZE)\<close>, bwrite.\<close>

definition bzero :: "uint \<Rightarrow> uint \<Rightarrow> kstate \<Rightarrow> kstate" where
  "bzero dev bno s =
     bwrite dev bno (\<lambda>k. if k < BSIZE then 0 else bread dev bno s k) s"

text \<open>The mask \<^verbatim>\<open>m = 1 << (bi % 8)\<close>, as a byte.\<close>

definition bitmask :: "nat \<Rightarrow> u8" where
  "bitmask bi = push_bit (bi mod 8) 1"

text \<open>
  \<^verbatim>\<open>BBLOCK(b, sb)\<close> in balloc, where \<^verbatim>\<open>b\<close> is an \<^verbatim>\<open>int\<close> (given by its 32 bits): the
  quotient \<^verbatim>\<open>b / BPB\<close> is the signed one, truncated towards zero, and the sum with
  \<^verbatim>\<open>sb.bmapstart\<close> is unsigned.
\<close>

definition cdiv :: "int \<Rightarrow> int \<Rightarrow> int" where
  "cdiv a b = (if 0 \<le> a then a div b else - ((- a) div b))"

definition BBLOCK_int :: "uint \<Rightarrow> xv6fs_super_block \<Rightarrow> uint" where
  "BBLOCK_int b sblk = of_int (cdiv (sint b) 4096) + sb_bmapstart sblk"

text \<open>
  The inner loop of balloc over the bits \<open>bi\<close> of the bitmap block \<open>bp\<close>:
  the first \<open>bi\<close> whose bit is clear, while \<^verbatim>\<open>bi < BPB && b + bi < sb.size\<close>.
  \<^verbatim>\<open>int b\<close> is given by its 32 bits: the sum \<^verbatim>\<open>b + bi\<close> is compared with the \<^verbatim>\<open>uint\<close>
  \<^verbatim>\<open>sb.size\<close> as an unsigned number. \<^verbatim>\<open>int bi\<close> stays within 0..BPB and is a natural
  number here.
\<close>

function balloc_bits :: "block \<Rightarrow> uint \<Rightarrow> nat \<Rightarrow> uint \<Rightarrow> nat option" where
  "balloc_bits bp b bi sz =
     (if bi < BPB \<and> b + of_nat bi < sz then
        (if bp (bi div 8) AND bitmask bi = 0 then Some bi
         else balloc_bits bp b (Suc bi) sz)
      else None)"
  by pat_completeness auto
termination
  by (relation "measure (\<lambda>(bp, b, bi, sz). BPB - bi)") auto

declare balloc_bits.simps [simp del]

text \<open>
  The outer loop of balloc from bit \<open>b\<close> on (\<^verbatim>\<open>for(b = 0; b < sb.size; b += BPB)\<close>, the
  test being unsigned). The block found is marked in the bitmap, zeroed and returned; 0
  is returned when no bit is clear. \<^verbatim>\<open>b\<close> is a multiple of BPB, so when \<^verbatim>\<open>b += BPB\<close> wraps
  around (which takes \<^verbatim>\<open>sb.size > 2^32 - BPB\<close>), \<^verbatim>\<open>b\<close> is 0 again and the loop is where it
  started, in the state in which it started, since a pass that finds no clear bit writes
  nothing: balloc never returns.
\<close>

function balloc_from :: "uint \<Rightarrow> uint \<Rightarrow> kstate \<Rightarrow> fault + (uint \<times> kstate)" where
  "balloc_from dev b s =
     (if b < sb_size (sb s) then
        (let bno = BBLOCK_int b (sb s); bp = bread dev bno s in
         case balloc_bits bp b 0 (sb_size (sb s)) of
           Some bi \<Rightarrow>
             Inr (b + of_nat bi,
                  bzero dev (b + of_nat bi)
                    (bwrite dev bno (bp(bi div 8 := bp (bi div 8) OR bitmask bi)) s))
         | None \<Rightarrow>
             if unat b + BPB < 2 ^ 32 then balloc_from dev (b + of_nat BPB) s
             else Inl Diverges)
      else Inr (0, s))"
  by pat_completeness auto
termination
proof (relation "measure (\<lambda>(dev, b, s). 2 ^ 32 - unat b)")
  show "wf (measure (\<lambda>(dev, b, s). 2 ^ 32 - unat (b::uint)))" by simp
next
  fix dev :: uint and b :: uint and s :: kstate and x xa
  assume "unat b + BPB < 2 ^ 32"
  then have "unat (b + of_nat BPB) = unat b + BPB"
    by (simp add: unat_add_lem [THEN iffD1] BPB_def BSIZE_def)
  then show "((dev, b + of_nat BPB, s), dev, b, s) \<in> measure (\<lambda>(dev, b, s). 2 ^ 32 - unat b)"
    using \<open>unat b + BPB < 2 ^ 32\<close> by (simp add: BPB_def BSIZE_def)
qed

declare balloc_from.simps [simp del]

definition balloc :: "uint \<Rightarrow> kstate \<Rightarrow> fault + (uint \<times> kstate)" where
  "balloc dev s = balloc_from dev 0 s"

definition bfree :: "uint \<Rightarrow> uint \<Rightarrow> kstate \<Rightarrow> fault + kstate" where
  "bfree dev b s =
     (let bno = BBLOCK b (sb s); bp = bread dev bno s; bi = unat b mod BPB in
      if bp (bi div 8) AND bitmask bi = 0 then Inl (Panic ''freeing free block'')
      else Inr (bwrite dev bno (bp(bi div 8 := bp (bi div 8) AND NOT (bitmask bi))) s))"

text \<open>Assignments to the fields of slot \<open>i\<close> of the inode table.\<close>

definition upd_inode :: "nat \<Rightarrow> (inode \<Rightarrow> inode) \<Rightarrow> kstate \<Rightarrow> kstate" where
  "upd_inode i f s = s\<lparr>itable := (itable s)[i := f (itable s ! i)]\<rparr>"

text \<open>\<^verbatim>\<open>ip->addrs[k] = addr\<close> on the payload of slot \<open>i\<close>.\<close>

definition set_addr :: "nat \<Rightarrow> nat \<Rightarrow> uint \<Rightarrow> kstate \<Rightarrow> kstate" where
  "set_addr i k addr s =
     upd_inode i (\<lambda>ino. ino\<lparr>i_private :=
        map_option (\<lambda>ip. ip\<lparr>x_addrs := (x_addrs ip)(k := addr)\<rparr>) (i_private ino)\<rparr>) s"

text \<open>
  The second half of bmap, once the indirect block \<open>ind\<close> is there: entry \<open>k\<close> of the
  indirect block, allocated if it is 0.
\<close>

definition bmap_indirect ::
  "xv6fs_inode \<Rightarrow> nat \<Rightarrow> uint \<Rightarrow> kstate \<Rightarrow> fault + (uint \<times> kstate)" where
  "bmap_indirect ip k ind s =
     (let bp = bread (x_dev ip) ind s in
      if rd32 bp (4 * k) = 0 then
        bindE (balloc (x_dev ip) s) (\<lambda>(addr, s3).
          if addr \<noteq> 0 then Inr (addr, bwrite (x_dev ip) ind (wr32 bp (4 * k) addr) s3)
          else Inr (0, s3))
      else Inr (rd32 bp (4 * k), s))"

text \<open>
  \<^verbatim>\<open>bmap(ip, bn)\<close>, \<open>ip\<close> being the payload of slot \<open>i\<close>. A null payload is dereferenced
  by the first \<^verbatim>\<open>ip->addrs[...]\<close>, which comes after the tests of \<open>bn\<close>: a \<open>bn\<close> out of
  range panics whatever the payload. The result 0 says that the disk is full.
\<close>

definition bmap :: "nat \<Rightarrow> uint \<Rightarrow> kstate \<Rightarrow> fault + (uint \<times> kstate)" where
  "bmap i bn s =
     (if unat bn < NDIRECT then
        (case i_private (itable s ! i) of
           None \<Rightarrow> Inl NullDeref
         | Some ip \<Rightarrow>
             if x_addrs ip (unat bn) = 0 then
               bindE (balloc (x_dev ip) s) (\<lambda>(addr, s1).
                 if addr = 0 then Inr (0, s1)
                 else Inr (addr, set_addr i (unat bn) addr s1))
             else Inr (x_addrs ip (unat bn), s))
      else if unat (bn - of_nat NDIRECT) < NINDIRECT then
        (case i_private (itable s ! i) of
           None \<Rightarrow> Inl NullDeref
         | Some ip \<Rightarrow>
             if x_addrs ip NDIRECT = 0 then
               bindE (balloc (x_dev ip) s) (\<lambda>(ind, s1).
                 if ind = 0 then Inr (0, s1)
                 else bmap_indirect ip (unat (bn - of_nat NDIRECT)) ind
                        (set_addr i NDIRECT ind s1))
             else bmap_indirect ip (unat (bn - of_nat NDIRECT)) (x_addrs ip NDIRECT) s)
      else Inl (Panic ''bmap: out of range''))"

text \<open>The 64 bytes of a dinode at offset \<open>base\<close> of an inode block, as iupdate writes them.\<close>

definition put_dinode ::
  "block \<Rightarrow> nat \<Rightarrow> short \<Rightarrow> short \<Rightarrow> short \<Rightarrow> short \<Rightarrow> uint \<Rightarrow> (nat \<Rightarrow> uint) \<Rightarrow> block" where
  "put_dinode bp base ty major minor nlink sz addrs =
     fold (\<lambda>k b. wr32 b (base + 12 + 4 * k) (addrs k)) [0..<NDIRECT + 1]
       (wr32 (wr16 (wr16 (wr16 (wr16 bp base ty) (base + 2) major) (base + 4) minor)
          (base + 6) nlink) (base + 8) sz)"

text \<open>
  \<^verbatim>\<open>xv6fs_iupdate(inode)\<close>: the in-memory inode of slot \<open>i\<close> is copied to its dinode.
  The payload is dereferenced (\<^verbatim>\<open>ip->major\<close>) before anything is written.
\<close>

definition xv6fs_iupdate :: "nat \<Rightarrow> kstate \<Rightarrow> fault + kstate" where
  "xv6fs_iupdate i s =
     (let ino = itable s ! i in
      case i_private ino of
        None \<Rightarrow> Inl NullDeref
      | Some ip \<Rightarrow>
          let bno = IBLOCK (i_inum ino) (sb s);
              bp = bread (i_dev ino) bno s
          in Inr (bwrite (i_dev ino) bno
                   (put_dinode bp (dinode_off (i_inum ino)) (i_type ino) (x_major ip)
                      (x_minor ip) (i_nlink ino) (i_size ino) (x_addrs ip)) s))"

text \<open>
  The statements xv6fs_geti and xv6fs_update_lock share word for word: a fresh zeroed
  payload becomes \<^verbatim>\<open>ino->private\<close>, the dinode (dev, inum) is read into the payload and
  into type, nlink, size and dev of the inode, and \<^verbatim>\<open>ino->ref = 1\<close>.
\<close>

definition get_dinode :: "block \<Rightarrow> nat \<Rightarrow> uint \<Rightarrow> xv6fs_inode" where
  "get_dinode bp base dev =
     \<lparr>x_dev = dev, x_type = rd16 bp base, x_major = rd16 bp (base + 2),
      x_minor = rd16 bp (base + 4), x_nlink = rd16 bp (base + 6),
      x_size = rd32 bp (base + 8),
      x_addrs = (\<lambda>k. if k \<le> NDIRECT then rd32 bp (base + 12 + 4 * k) else 0)\<rparr>"

definition load_dinode :: "nat \<Rightarrow> uint \<Rightarrow> uint \<Rightarrow> kstate \<Rightarrow> kstate" where
  "load_dinode i dev inum s =
     (let bp = bread dev (IBLOCK inum (sb s)) s;
          ip = get_dinode bp (dinode_off inum) dev
      in upd_inode i (\<lambda>ino. ino\<lparr>i_private := Some ip, i_type := x_type ip,
                                 i_nlink := x_nlink ip, i_size := x_size ip,
                                 i_dev := dev, i_ref := 1\<rparr>) s)"

text \<open>\<^verbatim>\<open>xv6fs_geti(dev, inum, inc_ref)\<close>.\<close>

definition xv6fs_geti :: "uint \<Rightarrow> uint \<Rightarrow> bool \<Rightarrow> kstate \<Rightarrow> fault + (nat \<times> kstate)" where
  "xv6fs_geti dev inum inc_ref s =
     bindE (iget dev inum s) (\<lambda>(i, s1).
       let s2 = (if \<not> inc_ref then upd_inode i (\<lambda>ino. ino\<lparr>i_ref := i_ref ino - 1\<rparr>) s1
                 else s1)
       in if i_private (itable s2 ! i) = None then Inr (i, load_dinode i dev inum s2)
          else Inr (i, s2))"

text \<open>\<^verbatim>\<open>xv6fs_update_lock(ino)\<close>: the same load, unconditionally, from \<^verbatim>\<open>ino->dev\<close> and \<^verbatim>\<open>ino->inum\<close>.\<close>

definition xv6fs_update_lock :: "nat \<Rightarrow> kstate \<Rightarrow> kstate" where
  "xv6fs_update_lock i s = load_dinode i (i_dev (itable s ! i)) (i_inum (itable s ! i)) s"

subsection \<open>Loading an inode: xv6fs_geti and xv6fs_update_lock\<close>

lemma itable_upd_inode [simp]:
  "itable (upd_inode i f s) = (itable s)[i := f (itable s ! i)]"
  by (simp add: upd_inode_def)

lemma disk_upd_inode [simp]: "disk (upd_inode i f s) = disk s"
  by (simp add: upd_inode_def)

lemma sb_upd_inode [simp]: "sb (upd_inode i f s) = sb s"
  by (simp add: upd_inode_def)

lemma cwd_upd_inode [simp]: "cwd (upd_inode i f s) = cwd s"
  by (simp add: upd_inode_def)

lemma umem_upd_inode [simp]: "umem (upd_inode i f s) = umem s"
  by (simp add: upd_inode_def)

lemma iget_Inr_D:
  "iget dev inum s = Inr (i, s1) \<Longrightarrow>
   i < length (itable s) \<and> length (itable s1) = length (itable s) \<and>
   disk s1 = disk s \<and> sb s1 = sb s \<and> cwd s1 = cwd s \<and> umem s1 = umem s"
  using iget_loop_Inl [of "itable s" 0 dev inum None]
    iget_loop_Inr_first [of "itable s" 0 dev inum]
  by (auto simp: iget_def split: sum.splits option.splits)

lemma unat_u8_less: "unat (w::8 word) < 256"
  using unsigned_less [of w, where ?'a = nat] by simp

lemma unat_ucast_8_16: "unat (ucast (lo::8 word) :: 16 word) = unat lo"
  using unat_u8_less [of lo] by (simp add: unsigned_ucast_eq take_bit_nat_eq_self)

lemma unat_ucast_8_32: "unat (ucast (lo::8 word) :: 32 word) = unat lo"
  using unat_u8_less [of lo] by (simp add: unsigned_ucast_eq take_bit_nat_eq_self)

lemma unat_push_8_16: "unat (push_bit 8 (ucast (hi::8 word)) :: 16 word) = 256 * unat hi"
proof -
  have "unat (ucast hi :: 16 word) * unat (256 :: 16 word) < 2 ^ LENGTH(16)"
    using unat_u8_less [of hi] by (simp add: unat_ucast_8_16)
  then have "unat ((ucast hi :: 16 word) * 256) = unat (ucast hi :: 16 word) * unat (256 :: 16 word)"
    by (simp only: unat_mult_lem)
  then show ?thesis by (simp add: push_bit_eq_mult unat_ucast_8_16)
qed

lemma unat_push_8_32: "k \<in> {8, 16, 24} \<Longrightarrow> unat (push_bit k (ucast (hi::8 word)) :: 32 word) = 2 ^ k * unat hi"
proof -
  assume k: "k \<in> {8, 16, 24}"
  then have "unat (ucast hi :: 32 word) * unat (2 ^ k :: 32 word) < 2 ^ LENGTH(32)"
    using unat_u8_less [of hi] by (auto simp: unat_ucast_8_32)
  then have "unat ((ucast hi :: 32 word) * 2 ^ k) = unat (ucast hi :: 32 word) * unat (2 ^ k :: 32 word)"
    by (simp only: unat_mult_lem)
  with k show ?thesis by (auto simp: push_bit_eq_mult unat_ucast_8_32)
qed

lemma le16:
  "unat ((ucast (lo::8 word) :: 16 word) OR push_bit 8 (ucast (hi::8 word)))
     = unat lo + 256 * unat hi"
proof -
  have "(ucast lo :: 16 word) OR push_bit 8 (ucast hi) = ucast lo + push_bit 8 (ucast hi)"
    by (rule disjunctive_add [symmetric]) (auto simp: bit_simps dest: bit_imp_le_length)
  moreover have "unat (ucast lo :: 16 word) + unat (push_bit 8 (ucast hi) :: 16 word) < 2 ^ LENGTH(16)"
    using unat_u8_less [of lo] unat_u8_less [of hi] by (simp add: unat_ucast_8_16 unat_push_8_16)
  then have "unat ((ucast lo :: 16 word) + push_bit 8 (ucast hi))
      = unat (ucast lo :: 16 word) + unat (push_bit 8 (ucast hi) :: 16 word)"
    by (simp only: unat_add_lem)
  ultimately show ?thesis by (simp add: unat_ucast_8_16 unat_push_8_16)
qed

lemma le32:
  "unat ((ucast (b0::8 word) :: 32 word) OR push_bit 8 (ucast (b1::8 word))
      OR push_bit 16 (ucast (b2::8 word)) OR push_bit 24 (ucast (b3::8 word)))
     = unat b0 + 256 * unat b1 + 65536 * unat b2 + 16777216 * unat b3"
proof -
  define a where "a = (ucast b0 :: 32 word)"
  define b where "b = (push_bit 8 (ucast b1) :: 32 word)"
  define c where "c = (push_bit 16 (ucast b2) :: 32 word)"
  define d where "d = (push_bit 24 (ucast b3) :: 32 word)"
  have ua: "unat a = unat b0" by (simp add: a_def unat_ucast_8_32)
  have ub: "unat b = 256 * unat b1" using unat_push_8_32 [of 8 b1] by (simp add: b_def)
  have uc: "unat c = 65536 * unat b2" using unat_push_8_32 [of 16 b2] by (simp add: c_def)
  have ud: "unat d = 16777216 * unat b3" using unat_push_8_32 [of 24 b3] by (simp add: d_def)
  note bd = unat_u8_less [of b0] unat_u8_less [of b1] unat_u8_less [of b2] unat_u8_less [of b3]
  have 1: "c OR d = c + d"
    unfolding c_def d_def
    by (rule disjunctive_add [symmetric]) (auto simp: bit_simps dest: bit_imp_le_length)
  have 2: "b OR (c OR d) = b + (c OR d)"
    unfolding b_def c_def d_def
    by (rule disjunctive_add [symmetric]) (auto simp: bit_simps dest: bit_imp_le_length)
  have 3: "a OR (b OR (c OR d)) = a + (b OR (c OR d))"
    unfolding a_def b_def c_def d_def
    by (rule disjunctive_add [symmetric]) (auto simp: bit_simps dest: bit_imp_le_length)
  have s1: "unat (c + d) = unat c + unat d"
    using bd by (simp only: unat_add_lem [symmetric]) (simp add: uc ud)
  have s2: "unat (b + (c + d)) = unat b + unat (c + d)"
    using bd by (simp only: unat_add_lem [symmetric]) (simp add: s1 ub uc ud)
  have s3: "unat (a + (b + (c + d))) = unat a + unat (b + (c + d))"
    using bd by (simp only: unat_add_lem [symmetric]) (simp add: s2 s1 ua ub uc ud)
  have "unat (a OR (b OR (c OR d)))
      = unat b0 + 256 * unat b1 + 65536 * unat b2 + 16777216 * unat b3"
    apply (subst 3)
    apply (subst 2)
    apply (subst 1)
    apply (simp only: s3 s2 s1 ua ub uc ud)
    done
  then show ?thesis by (simp only: a_def b_def c_def d_def)
qed

lemma unat_rd16: "unat (rd16 b off) = unat (b off) + 256 * unat (b (off + 1))"
  unfolding rd16_def by (rule le16)

lemma unat_rd32:
  "unat (rd32 b off) = unat (b off) + 256 * unat (b (off + 1)) + 65536 * unat (b (off + 2))
     + 16777216 * unat (b (off + 3))"
  unfolding rd32_def by (rule le32)

text \<open>
  The dinode of the spec, \<^verbatim>\<open>{type: i16, major: i16, minor: i16, nlink: i16, size: u32,
  addrs: [u32; NDIRECT+1]}\<close>, little-endian, at byte \<open>base\<close> of block \<open>bp\<close>, is what the
  inode \<open>ino\<close> holds: in its own fields type, nlink and size, in its payload every
  field, and \<open>dev\<close> in both.
\<close>

definition dinode_loaded :: "block \<Rightarrow> nat \<Rightarrow> uint \<Rightarrow> inode \<Rightarrow> bool" where
  "dinode_loaded bp base dev ino =
     (case i_private ino of
        None \<Rightarrow> False
      | Some ip \<Rightarrow>
          i_dev ino = dev \<and> x_dev ip = dev \<and>
          unat (i_type ino) = unat (bp base) + 256 * unat (bp (base + 1)) \<and>
          x_type ip = i_type ino \<and>
          unat (x_major ip) = unat (bp (base + 2)) + 256 * unat (bp (base + 3)) \<and>
          unat (x_minor ip) = unat (bp (base + 4)) + 256 * unat (bp (base + 5)) \<and>
          unat (i_nlink ino) = unat (bp (base + 6)) + 256 * unat (bp (base + 7)) \<and>
          x_nlink ip = i_nlink ino \<and>
          unat (i_size ino) = unat (bp (base + 8)) + 256 * unat (bp (base + 9))
            + 65536 * unat (bp (base + 10)) + 16777216 * unat (bp (base + 11)) \<and>
          x_size ip = i_size ino \<and>
          list_all (\<lambda>k. unat (x_addrs ip k)
              = unat (bp (base + 12 + 4 * k)) + 256 * unat (bp (base + 12 + 4 * k + 1))
                + 65536 * unat (bp (base + 12 + 4 * k + 2))
                + 16777216 * unat (bp (base + 12 + 4 * k + 3))) [0..<NDIRECT + 1])"

lemma load_dinode_loaded:
  assumes "i < length (itable s)"
  shows "dinode_loaded (disk s dev (inum div 8 + sb_inodestart (sb s))) (64 * (unat inum mod 8)) dev
           (itable (load_dinode i dev inum s) ! i)"
    and "i_ref (itable (load_dinode i dev inum s) ! i) = 1"
    and "i_inum (itable (load_dinode i dev inum s) ! i) = i_inum (itable s ! i)"
    and "disk (load_dinode i dev inum s) = disk s"
    and "sb (load_dinode i dev inum s) = sb s"
    and "length (itable (load_dinode i dev inum s)) = length (itable s)"
    and "\<And>j. j \<noteq> i \<Longrightarrow> itable (load_dinode i dev inum s) ! j = itable s ! j"
  using assms
  by (simp_all add: load_dinode_def Let_def dinode_loaded_def get_dinode_def bread_def
      IBLOCK_def dinode_off_def IPB_def unat_rd16 unat_rd32 list_all_iff add_ac
      del: add_2_eq_Suc add_2_eq_Suc' upt_Suc)

lemma iget_Inr_key:
  "iget dev inum s = Inr (i, s1) \<Longrightarrow>
   i_inum (itable s1 ! i) = inum \<and> i_dev (itable s1 ! i) = dev"
  using iget_loop_Inl [of "itable s" 0 dev inum None]
    iget_loop_Inr_first [of "itable s" 0 dev inum]
  by (auto simp: iget_def iget_match_def split: sum.splits option.splits)

text \<open>
  C9. When the slot iget returns has a null payload, xv6fs_geti returns that slot loaded
  from the dinode (dev, inum) on disk, which is at byte \<open>64 * (inum mod 8)\<close> of block
  \<open>inum / 8 + sb.inodestart\<close>: type, nlink and size of the inode, every field of the
  payload, and dev are those of the dinode, byte for byte; and \<open>ref = 1\<close>, whatever iget
  left in \<open>ref\<close> and whether or not \<open>inc_ref\<close> is set. xv6fs_update_lock (which ilock
  calls when the payload is null) loads its slot in the same way from the dinode
  (\<open>ino->dev\<close>, \<open>ino->inum\<close>) and leaves \<open>ref = 1\<close>, whatever \<open>ref\<close> was. Neither writes
  the disk, and xv6fs_update_lock changes no other slot.
\<close>

theorem geti_update_lock_ref:
  "(iget dev inum s = Inr (i, sg) \<and> i_private (itable sg ! i) = None \<longrightarrow>
      (\<exists>s'. xv6fs_geti dev inum inc_ref s = Inr (i, s') \<and>
            dinode_loaded (disk s dev (inum div 8 + sb_inodestart (sb s)))
              (64 * (unat inum mod 8)) dev (itable s' ! i) \<and>
            i_inum (itable s' ! i) = inum \<and>
            i_ref (itable s' ! i) = 1 \<and> disk s' = disk s)) \<and>
   (i < length (itable s) \<longrightarrow>
      dinode_loaded
        (disk s (i_dev (itable s ! i)) (i_inum (itable s ! i) div 8 + sb_inodestart (sb s)))
        (64 * (unat (i_inum (itable s ! i)) mod 8)) (i_dev (itable s ! i))
        (itable (xv6fs_update_lock i s) ! i) \<and>
      i_inum (itable (xv6fs_update_lock i s) ! i) = i_inum (itable s ! i) \<and>
      i_ref (itable (xv6fs_update_lock i s) ! i) = 1 \<and>
      disk (xv6fs_update_lock i s) = disk s \<and>
      (\<forall>j. j \<noteq> i \<longrightarrow> itable (xv6fs_update_lock i s) ! j = itable s ! j))"
proof (intro conjI impI)
  assume a: "iget dev inum s = Inr (i, sg) \<and> i_private (itable sg ! i) = None"
  from a iget_Inr_D [of dev inum s i sg] iget_Inr_key [of dev inum s i sg]
  have i: "i < length (itable sg)" "disk sg = disk s" "sb sg = sb s"
    "i_inum (itable sg ! i) = inum" by auto
  define s2 where "s2 = (if \<not> inc_ref
      then upd_inode i (\<lambda>ino. ino\<lparr>i_ref := i_ref ino - 1\<rparr>) sg else sg)"
  from a i have s2: "i < length (itable s2)" "disk s2 = disk s" "sb s2 = sb s"
    "i_inum (itable s2 ! i) = inum" "i_private (itable s2 ! i) = None"
    by (simp_all add: s2_def)
  from a s2(5) have g: "xv6fs_geti dev inum inc_ref s = Inr (i, load_dinode i dev inum s2)"
    by (simp add: xv6fs_geti_def Let_def s2_def)
  from load_dinode_loaded [OF s2(1), where dev = dev and inum = inum] s2
  show "\<exists>s'. xv6fs_geti dev inum inc_ref s = Inr (i, s') \<and>
            dinode_loaded (disk s dev (inum div 8 + sb_inodestart (sb s)))
              (64 * (unat inum mod 8)) dev (itable s' ! i) \<and>
            i_inum (itable s' ! i) = inum \<and>
            i_ref (itable s' ! i) = 1 \<and> disk s' = disk s"
    by (simp add: g)
next
  assume v: "i < length (itable s)"
  note l = load_dinode_loaded [OF v, where dev = "i_dev (itable s ! i)"
      and inum = "i_inum (itable s ! i)"]
  from l(1) show "dinode_loaded
        (disk s (i_dev (itable s ! i)) (i_inum (itable s ! i) div 8 + sb_inodestart (sb s)))
        (64 * (unat (i_inum (itable s ! i)) mod 8)) (i_dev (itable s ! i))
        (itable (xv6fs_update_lock i s) ! i)"
    by (simp add: xv6fs_update_lock_def)
  from l(3) show "i_inum (itable (xv6fs_update_lock i s) ! i) = i_inum (itable s ! i)"
    by (simp add: xv6fs_update_lock_def)
  from l(2) show "i_ref (itable (xv6fs_update_lock i s) ! i) = 1"
    by (simp add: xv6fs_update_lock_def)
  from l(4) show "disk (xv6fs_update_lock i s) = disk s"
    by (simp add: xv6fs_update_lock_def)
  from l(7) show "\<forall>j. j \<noteq> i \<longrightarrow> itable (xv6fs_update_lock i s) ! j = itable s ! j"
    by (simp add: xv6fs_update_lock_def)
qed

text \<open>
  A slot with five references and no payload, on the disk whose byte \<open>k\<close> of every block
  is \<open>k\<close>: iget finds it and counts six; xv6fs_geti leaves \<open>ref = 1\<close> and the fields of
  dinode 7 (bytes 448 to 511 of block 6), and so does xv6fs_update_lock.
\<close>

theorem geti_update_lock_ref_witness:
  "iget 1 7 (ex_disk_state [ex_inode 1 5 1, ex_inode 1 7 5])
     = Inr (1, ex_disk_state [ex_inode 1 5 1, ex_inode 1 7 6]) \<and>
   i_private (itable (ex_disk_state [ex_inode 1 5 1, ex_inode 1 7 6]) ! 1) = None \<and>
   map_sum id (\<lambda>(i, s'). (i, map i_ref (itable s'), unat (i_type (itable s' ! i)),
                           unat (i_nlink (itable s' ! i)), unat (i_size (itable s' ! i))))
     (xv6fs_geti 1 7 True (ex_disk_state [ex_inode 1 5 1, ex_inode 1 7 5]))
     = Inr (1, [1, 1], 192 + 256 * 193, 198 + 256 * 199,
            200 + 256 * 201 + 65536 * 202 + 16777216 * 203) \<and>
   (\<lambda>s'. (map i_ref (itable s'), unat (i_type (itable s' ! 1)),
          unat (i_nlink (itable s' ! 1)), unat (i_size (itable s' ! 1))))
     (xv6fs_update_lock 1 (ex_disk_state [ex_inode 1 5 1, ex_inode 1 7 5]))
     = ([1, 1], 192 + 256 * 193, 198 + 256 * 199,
        200 + 256 * 201 + 65536 * 202 + 16777216 * 203)"
proof -
  let ?s = "ex_disk_state [ex_inode 1 5 1, ex_inode 1 7 5]"
  let ?g = "ex_disk_state [ex_inode 1 5 1, ex_inode 1 7 6]"
  have f: "itable ?s = [ex_inode 1 5 1, ex_inode 1 7 5]" "sb ?s = ex_sb"
    "disk ?s = (\<lambda>dev bno k. of_nat k)"
    by (simp_all add: ex_disk_state_def ex_state_def)
  have g: "iget 1 7 ?s = Inr (1, ?g)" "i_private (itable ?g ! 1) = None"
    by (simp_all add: iget_def ex_disk_state_def ex_state_def ex_inode_def iget_match_def)
  have b: "unat (of_nat 448 :: u8) = 192" "unat (of_nat 449 :: u8) = 193"
    "unat (of_nat 454 :: u8) = 198" "unat (of_nat 455 :: u8) = 199"
    "unat (of_nat 456 :: u8) = 200" "unat (of_nat 457 :: u8) = 201"
    "unat (of_nat 458 :: u8) = 202" "unat (of_nat 459 :: u8) = 203"
    by simp_all
  from geti_update_lock_ref [where dev = 1 and inum = 7 and inc_ref = True and i = 1
      and s = ?s and sg = ?g] g
  obtain s' where r: "xv6fs_geti 1 7 True ?s = Inr (1, s')"
    and l: "dinode_loaded (disk ?s 1 (7 div 8 + sb_inodestart (sb ?s))) (64 * (unat (7::uint) mod 8)) 1
              (itable s' ! 1)"
    and rf: "i_ref (itable s' ! 1) = 1"
    by auto
  have fg: "itable ?g = [ex_inode 1 5 1, ex_inode 1 7 6]"
    by (simp add: ex_disk_state_def ex_state_def)
  have "xv6fs_geti 1 7 True ?s = Inr (1, load_dinode 1 1 7 ?g)"
    using g by (simp add: xv6fs_geti_def Let_def)
  with r have s': "s' = load_dinode 1 1 7 ?g" by simp
  have o: "itable s' ! 0 = ex_inode 1 5 1" "length (itable s') = 2"
    using load_dinode_loaded(6,7) [where i = 1 and s = ?g and dev = 1 and inum = 7]
    by (simp_all add: s' fg)
  from o rf have m: "map i_ref (itable s') = [1, 1]"
    by (cases "itable s'") (auto simp: ex_inode_def length_Suc_conv)
  from l have v: "unat (i_type (itable s' ! 1)) = 192 + 256 * 193"
    "unat (i_nlink (itable s' ! 1)) = 198 + 256 * 199"
    "unat (i_size (itable s' ! 1)) = 200 + 256 * 201 + 65536 * 202 + 16777216 * 203"
    by (auto simp: dinode_loaded_def f b split: option.splits)
  have fs: "1 < length (itable ?s)" "i_dev (itable ?s ! 1) = 1" "i_inum (itable ?s ! 1) = 7"
    "itable ?s ! 0 = ex_inode 1 5 1"
    by (simp_all add: ex_disk_state_def ex_state_def ex_inode_def)
  from geti_update_lock_ref [where i = 1 and s = ?s, THEN conjunct2] fs
  have lu: "dinode_loaded (disk ?s 1 (7 div 8 + sb_inodestart (sb ?s))) (64 * (unat (7::uint) mod 8)) 1
              (itable (xv6fs_update_lock 1 ?s) ! 1)"
    and ru: "i_ref (itable (xv6fs_update_lock 1 ?s) ! 1) = 1"
    and ou: "itable (xv6fs_update_lock 1 ?s) ! 0 = ex_inode 1 5 1"
    by simp_all
  have "length (itable (xv6fs_update_lock 1 ?s)) = 2"
    using load_dinode_loaded(6) [where i = 1 and s = ?s and dev = 1 and inum = 7] fs
    by (simp add: xv6fs_update_lock_def f)
  with ou ru have mu: "map i_ref (itable (xv6fs_update_lock 1 ?s)) = [1, 1]"
    by (cases "itable (xv6fs_update_lock 1 ?s)") (auto simp: ex_inode_def length_Suc_conv)
  from lu have vu: "unat (i_type (itable (xv6fs_update_lock 1 ?s) ! 1)) = 192 + 256 * 193"
    "unat (i_nlink (itable (xv6fs_update_lock 1 ?s) ! 1)) = 198 + 256 * 199"
    "unat (i_size (itable (xv6fs_update_lock 1 ?s) ! 1))
       = 200 + 256 * 201 + 65536 * 202 + 16777216 * 203"
    by (auto simp: dinode_loaded_def f b split: option.splits)
  from g r m v mu vu show ?thesis by simp
qed

section \<open>Truncating and evicting an inode (xv6fs/defs.h)\<close>

text \<open>
  The first loop of xv6fs_itrunc, over the direct addresses \<open>ks\<close> of the payload of slot
  \<open>i\<close>: \<^verbatim>\<open>if(ip->addrs[i]){ bfree(ino->dev, ip->addrs[i]); ip->addrs[i] = 0; }\<close>.
\<close>

fun itrunc_direct :: "nat \<Rightarrow> nat list \<Rightarrow> kstate \<Rightarrow> fault + kstate" where
  "itrunc_direct i [] s = Inr s"
| "itrunc_direct i (k # ks) s =
     (case i_private (itable s ! i) of
        None \<Rightarrow> Inl NullDeref
      | Some ip \<Rightarrow>
          if x_addrs ip k \<noteq> 0
          then bindE (bfree (i_dev (itable s ! i)) (x_addrs ip k) s)
                 (\<lambda>s1. itrunc_direct i ks (set_addr i k 0 s1))
          else itrunc_direct i ks s)"

text \<open>
  The second loop, over the entries \<open>js\<close> of the indirect block \<open>a\<close> read before the loop:
  \<^verbatim>\<open>if(a[j]) bfree(ino->dev, a[j]);\<close>.
\<close>

fun itrunc_indirect :: "uint \<Rightarrow> block \<Rightarrow> nat list \<Rightarrow> kstate \<Rightarrow> fault + kstate" where
  "itrunc_indirect dev a [] s = Inr s"
| "itrunc_indirect dev a (j # js) s =
     (if rd32 a (4 * j) \<noteq> 0
      then bindE (bfree dev (rd32 a (4 * j)) s) (itrunc_indirect dev a js)
      else itrunc_indirect dev a js s)"

definition xv6fs_itrunc :: "nat \<Rightarrow> kstate \<Rightarrow> fault + kstate" where
  "xv6fs_itrunc i s =
     bindE (itrunc_direct i [0..<NDIRECT] s) (\<lambda>s1.
       case i_private (itable s1 ! i) of
         None \<Rightarrow> Inl NullDeref
       | Some ip \<Rightarrow>
           bindE (if x_addrs ip NDIRECT \<noteq> 0
                  then
                    (let dev = i_dev (itable s1 ! i);
                         a = bread dev (x_addrs ip NDIRECT) s1
                     in bindE (itrunc_indirect dev a [0..<NINDIRECT] s1) (\<lambda>s2.
                        bindE (bfree dev (x_addrs ip NDIRECT) s2) (\<lambda>s3.
                          Inr (set_addr i NDIRECT 0 s3))))
                  else Inr s1) (\<lambda>s4.
           xv6fs_iupdate i (upd_inode i (\<lambda>ino. ino\<lparr>i_size := 0\<rparr>) s4)))"

text \<open>
  \<^verbatim>\<open>xv6fs_release_inode\<close> and \<^verbatim>\<open>xv6fs_free_inode\<close> have the same body: a payload that is
  there is freed, and \<^verbatim>\<open>private\<close> and \<^verbatim>\<open>type\<close> are cleared.
\<close>

definition xv6fs_release_inode :: "nat \<Rightarrow> kstate \<Rightarrow> kstate" where
  "xv6fs_release_inode i s =
     (if i_private (itable s ! i) \<noteq> None
      then upd_inode i (\<lambda>ino. ino\<lparr>i_private := None, i_type := 0\<rparr>) s
      else s)"

definition xv6fs_free_inode :: "nat \<Rightarrow> kstate \<Rightarrow> kstate" where
  "xv6fs_free_inode i s =
     (if i_private (itable s ! i) \<noteq> None
      then upd_inode i (\<lambda>ino. ino\<lparr>i_private := None, i_type := 0\<rparr>) s
      else s)"

section \<open>The VFS inode life cycle (fs.c)\<close>

text \<open>
  The calls through \<^verbatim>\<open>ip->op\<close>. A null \<^verbatim>\<open>op\<close> is dereferenced; the one table there
  is, \<^verbatim>\<open>xv6fs_ops\<close>, names the xv6fs functions.
\<close>

definition op_trunc :: "nat \<Rightarrow> kstate \<Rightarrow> fault + kstate" where
  "op_trunc i s =
     (case i_op (itable s ! i) of None \<Rightarrow> Inl NullDeref | Some XV6FS_OPS \<Rightarrow> xv6fs_itrunc i s)"

definition op_write_inode :: "nat \<Rightarrow> kstate \<Rightarrow> fault + kstate" where
  "op_write_inode i s =
     (case i_op (itable s ! i) of None \<Rightarrow> Inl NullDeref | Some XV6FS_OPS \<Rightarrow> xv6fs_iupdate i s)"

definition op_free_inode :: "nat \<Rightarrow> kstate \<Rightarrow> fault + kstate" where
  "op_free_inode i s =
     (case i_op (itable s ! i) of
        None \<Rightarrow> Inl NullDeref
      | Some XV6FS_OPS \<Rightarrow> Inr (xv6fs_free_inode i s))"

definition op_release_inode :: "nat \<Rightarrow> kstate \<Rightarrow> fault + kstate" where
  "op_release_inode i s =
     (case i_op (itable s ! i) of
        None \<Rightarrow> Inl NullDeref
      | Some XV6FS_OPS \<Rightarrow> Inr (xv6fs_release_inode i s))"

definition op_update_lock :: "nat \<Rightarrow> kstate \<Rightarrow> fault + kstate" where
  "op_update_lock i s =
     (case i_op (itable s ! i) of
        None \<Rightarrow> Inl NullDeref
      | Some XV6FS_OPS \<Rightarrow> Inr (xv6fs_update_lock i s))"

text \<open>
  Modelled from the spec: the sleep-lock (sleeplock.c is absent) "may block the current
  task". With one task, acquiring a lock that is held never returns.
\<close>

definition acquiresleep :: "nat \<Rightarrow> kstate \<Rightarrow> fault + kstate" where
  "acquiresleep i s =
     (if i_lock (itable s ! i) then Inl Blocked
      else Inr (upd_inode i (\<lambda>ino. ino\<lparr>i_lock := True\<rparr>) s))"

definition releasesleep :: "nat \<Rightarrow> kstate \<Rightarrow> kstate" where
  "releasesleep i s = upd_inode i (\<lambda>ino. ino\<lparr>i_lock := False\<rparr>) s"

definition holdingsleep :: "nat \<Rightarrow> kstate \<Rightarrow> bool" where
  "holdingsleep i s = i_lock (itable s ! i)"

definition idup :: "nat \<Rightarrow> kstate \<Rightarrow> nat \<times> kstate" where
  "idup i s = (i, upd_inode i (\<lambda>ino. ino\<lparr>i_ref := i_ref ino + 1\<rparr>) s)"

text \<open>\<^verbatim>\<open>ilock(ip)\<close>, for a pointer \<open>ip\<close> that is not null.\<close>

definition ilock :: "nat \<Rightarrow> kstate \<Rightarrow> fault + kstate" where
  "ilock i s =
     (if sint (i_ref (itable s ! i)) < 1 then Inl (Panic ''ilock'')
      else bindE (acquiresleep i s) (\<lambda>s1.
             if i_private (itable s1 ! i) = None then op_update_lock i s1 else Inr s1))"

text \<open>
  \<^verbatim>\<open>iunlock(ip)\<close>, for a pointer that is not null. Of the panics in the failing branch the
  first that applies is the one reached.
\<close>

definition iunlock :: "nat \<Rightarrow> kstate \<Rightarrow> fault + kstate" where
  "iunlock i s =
     (if \<not> holdingsleep i s \<or> sint (i_ref (itable s ! i)) < 1 then
        (if holdingsleep i s then Inl (Panic ''iunlock: no lock'')
         else if sint (i_ref (itable s ! i)) < 1 then Inl (Panic ''iunlock: no ref'')
         else Inl (Panic ''iunlock''))
      else Inr (releasesleep i s))"

text \<open>
  \<^verbatim>\<open>iput(ip)\<close>. The two \<^verbatim>\<open>if\<close> statements follow each other, the second reading
  \<^verbatim>\<open>ref\<close> and \<^verbatim>\<open>nlink\<close> as the first left them; \<^verbatim>\<open>nlink > 0\<close> is a signed comparison.
\<close>

definition iput :: "nat \<Rightarrow> kstate \<Rightarrow> fault + kstate" where
  "iput i s =
     (if i_private (itable s ! i) = None then Inr s
      else
        bindE (if i_ref (itable s ! i) = 1 \<and> i_nlink (itable s ! i) = 0 then
                 bindE (acquiresleep i s) (\<lambda>s1.
                 bindE (op_trunc i (upd_inode i (\<lambda>ino. ino\<lparr>i_type := 0\<rparr>) s1)) (\<lambda>s2.
                 bindE (op_write_inode i s2) (\<lambda>s3.
                 bindE (op_free_inode i s3) (\<lambda>s4.
                   Inr (releasesleep i s4)))))
               else Inr s) (\<lambda>s5.
        bindE (if i_ref (itable s5 ! i) = 1 \<and> 0 < sint (i_nlink (itable s5 ! i)) then
                 bindE (acquiresleep i s5) (\<lambda>s6.
                 bindE (op_write_inode i s6) (\<lambda>s7.
                 bindE (op_release_inode i s7) (\<lambda>s8.
                   Inr (releasesleep i s8))))
               else Inr s5) (\<lambda>s9.
        Inr (upd_inode i (\<lambda>ino. ino\<lparr>i_ref := i_ref ino - 1\<rparr>) s9))))"

definition iunlockput :: "nat \<Rightarrow> kstate \<Rightarrow> fault + kstate" where
  "iunlockput i s = bindE (iunlock i s) (iput i)"

subsection \<open>iput on an inode that was never locked\<close>

text \<open>
  C3 as stated fails for a null payload. The claim has iput take one from \<open>ref\<close> for every
  inode with \<open>ref \<ge> 1\<close>, also when \<^verbatim>\<open>private\<close> is null. The first statement of iput,
  \<^verbatim>\<open>if (ip->private == 0) return;\<close>, returns before \<^verbatim>\<open>ip->ref--\<close>: on a slot with
  \<open>ref = 1\<close> and no payload (what iget leaves) the state stays as it was, and \<open>ref\<close> is
  still 1.
\<close>

theorem iput_null_private_keeps_ref:
  "iput 0 (ex_state [ex_inode 1 7 1]) = Inr (ex_state [ex_inode 1 7 1]) \<and>
   i_ref (itable (ex_state [ex_inode 1 7 1]) ! 0) = 1 \<and>
   i_private (itable (ex_state [ex_inode 1 7 1]) ! 0) = None"
  by (simp add: iput_def ex_state_def ex_inode_def)

lemma iput_null_private:
  "i_private (itable s ! i) = None \<Longrightarrow> iput i s = Inr s"
  by (simp add: iput_def)

section \<open>Reading and writing inode content (xv6fs/defs.h)\<close>

text \<open>\<^verbatim>\<open>m = min(n - tot, BSIZE - off%BSIZE)\<close>, in \<^verbatim>\<open>uint\<close> arithmetic.\<close>

definition chunk :: "uint \<Rightarrow> uint \<Rightarrow> uint \<Rightarrow> uint" where
  "chunk n tot off = min (n - tot) (512 - off mod 512)"


lemma unat_rest: "unat (512 - (off::uint) mod 512) = 512 - unat off mod 512"
proof -
  have "off mod 512 \<le> 512"
    by (simp add: word_le_nat_alt unat_mod) 
  then have "unat (512 - off mod 512) = unat (512::uint) - unat (off mod 512)"
    by (rule unat_sub)
  then show ?thesis by (simp add: unat_mod)
qed

lemma unat_chunk:
  "tot < n \<Longrightarrow> unat (chunk n tot off) = min (unat n - unat tot) (512 - unat off mod 512)"
  unfolding chunk_def
  by (simp add: min_def word_le_nat_alt unat_rest unat_sub word_less_nat_alt)

lemma chunk_pos: "tot < n \<Longrightarrow> 0 < unat (chunk n tot off)"
  by (simp add: unat_chunk word_less_nat_alt)

lemma unat_tot_chunk:
  "tot < n \<Longrightarrow> unat (tot + chunk n tot off) = unat tot + unat (chunk n tot off)"
proof -
  assume a: "tot < n"
  have "unat tot + unat (chunk n tot off) \<le> unat n"
    using a by (simp add: unat_chunk word_less_nat_alt)
  also have "unat n < 2 ^ 32"
    using unsigned_less [of n, where ?'a = nat] by simp
  finally show ?thesis
    by (simp add: unat_add_lem [THEN iffD1])
qed


lemma chunk_decr:
  "unat tot < unat n \<Longrightarrow>
   unat n - (unat tot + unat (chunk n tot off)) < unat n - unat tot"
proof -
  assume a: "unat tot < unat n"
  define r where "r = unat off mod 512"
  have k: "r < 512" by (simp add: r_def)
  have "unat (chunk n tot off) = min (unat n - unat tot) (512 - r)"
    using a by (simp add: unat_chunk word_less_nat_alt r_def)
  with a k show ?thesis by arith
qed

text \<open>
  Modelled from the spec: the copy primitives \<^verbatim>\<open>either_copyout(user, dst, src, n)\<close> and
  \<^verbatim>\<open>either_copyin(dst, user, src, n)\<close> (proc.c and vm.c are absent) return 0 or -1. To or
  from a kernel address the copy is a memmove and succeeds. To or from a user address it
  fails (\<open>None\<close>) when a byte of the range is not mapped, and is taken to change nothing
  then. The bytes a read delivers to a kernel buffer are the result \<open>out\<close> of readi; the
  kernel memory a write copies from is the function \<open>kmem\<close> of the address.
\<close>

definition either_copyout :: "bool \<Rightarrow> uint64 \<Rightarrow> u8 list \<Rightarrow> kstate \<Rightarrow> kstate option" where
  "either_copyout user_dst dst bytes s =
     (if user_dst then
        (if list_all (\<lambda>k. umem s (dst + of_nat k) \<noteq> None) [0..<length bytes]
         then Some (s\<lparr>umem := (\<lambda>a. if unat (a - dst) < length bytes
                                     then Some (bytes ! unat (a - dst)) else umem s a)\<rparr>)
         else None)
      else Some s)"

definition either_copyin ::
  "bool \<Rightarrow> uint64 \<Rightarrow> (uint64 \<Rightarrow> u8) \<Rightarrow> nat \<Rightarrow> kstate \<Rightarrow> u8 list option" where
  "either_copyin user_src src kmem len s =
     (if user_src then
        (if list_all (\<lambda>k. umem s (src + of_nat k) \<noteq> None) [0..<len]
         then Some (map (\<lambda>k. the (umem s (src + of_nat k))) [0..<len])
         else None)
      else Some (map (\<lambda>k. kmem (src + of_nat k)) [0..<len]))"

text \<open>
  The loop of xv6fs_readi on slot \<open>i\<close>, with the variables \<^verbatim>\<open>dst\<close>, \<^verbatim>\<open>off\<close>, \<^verbatim>\<open>tot\<close> of the
  code and the bytes \<open>out\<close> delivered so far. The result is \<^verbatim>\<open>tot\<close> at the end (the
  \<^verbatim>\<open>int\<close> returned, as its 32 bits: -1 is \<open>- 1\<close>), the bytes delivered and the state.
\<close>

function readi_loop ::
  "nat \<Rightarrow> bool \<Rightarrow> uint64 \<Rightarrow> uint \<Rightarrow> uint \<Rightarrow> uint \<Rightarrow> u8 list \<Rightarrow> kstate
     \<Rightarrow> fault + (uint \<times> u8 list \<times> kstate)" where
  "readi_loop i user_dst dst off n tot out s =
     (if tot < n then
        bindE (bmap i (off div 512) s) (\<lambda>(addr, s1).
          if addr = 0 then Inr (tot, out, s1)
          else
            let bp = bread (i_dev (itable s1 ! i)) addr s1;
                m = chunk n tot off;
                bytes = map (\<lambda>k. bp (unat (off mod 512) + k)) [0..<unat m]
            in case either_copyout user_dst dst bytes s1 of
                 None \<Rightarrow> Inr (- 1, out, s1)
               | Some s2 \<Rightarrow>
                   readi_loop i user_dst (dst + ucast m) (off + m) n (tot + m) (out @ bytes) s2)
      else Inr (tot, out, s))"
  by pat_completeness auto
termination
  by (relation "measure (\<lambda>(i, user_dst, dst, off, n, tot, out, s). unat n - unat tot)")
    (auto simp: unat_tot_chunk word_less_nat_alt chunk_decr)

declare readi_loop.simps [simp del]

definition xv6fs_readi ::
  "nat \<Rightarrow> bool \<Rightarrow> uint64 \<Rightarrow> uint \<Rightarrow> uint \<Rightarrow> kstate \<Rightarrow> fault + (uint \<times> u8 list \<times> kstate)" where
  "xv6fs_readi i user_dst dst off n s =
     (let sz = i_size (itable s ! i) in
      if off > sz \<or> off + n < off then Inr (0, [], s)
      else readi_loop i user_dst dst off (if off + n > sz then sz - off else n) 0 [] s)"

text \<open>
  The loop of xv6fs_writei on slot \<open>i\<close>, with the variables \<^verbatim>\<open>src\<close>, \<^verbatim>\<open>off\<close>, \<^verbatim>\<open>tot\<close> of the
  code and the bytes \<open>wr\<close> written to the disk so far; the result is \<^verbatim>\<open>tot\<close> and \<^verbatim>\<open>off\<close> at
  the end of the loop, the bytes written and the state.
\<close>

function writei_loop ::
  "nat \<Rightarrow> bool \<Rightarrow> uint64 \<Rightarrow> (uint64 \<Rightarrow> u8) \<Rightarrow> uint \<Rightarrow> uint \<Rightarrow> uint \<Rightarrow> u8 list \<Rightarrow> kstate
     \<Rightarrow> fault + (uint \<times> uint \<times> u8 list \<times> kstate)" where
  "writei_loop i user_src src kmem off n tot wr s =
     (if tot < n then
        bindE (bmap i (off div 512) s) (\<lambda>(addr, s1).
          if addr = 0 then Inr (tot, off, wr, s1)
          else
            let dev = i_dev (itable s1 ! i);
                bp = bread dev addr s1;
                m = chunk n tot off;
                lo = unat (off mod 512)
            in case either_copyin user_src src kmem (unat m) s1 of
                 None \<Rightarrow> Inr (tot, off, wr, s1)
               | Some bytes \<Rightarrow>
                   writei_loop i user_src (src + ucast m) kmem (off + m) n (tot + m)
                     (wr @ bytes)
                     (bwrite dev addr
                        (\<lambda>k. if lo \<le> k \<and> k < lo + unat m then bytes ! (k - lo) else bp k) s1))
      else Inr (tot, off, wr, s))"
  by pat_completeness auto
termination
  by (relation "measure (\<lambda>(i, user_src, src, kmem, off, n, tot, wr, s). unat n - unat tot)")
    (auto simp: unat_tot_chunk word_less_nat_alt chunk_decr)

declare writei_loop.simps [simp del]

text \<open>
  \<^verbatim>\<open>xv6fs_writei\<close>: the \<^verbatim>\<open>int\<close> returned (as its 32 bits), the bytes written and the state.
\<close>

definition xv6fs_writei ::
  "nat \<Rightarrow> bool \<Rightarrow> uint64 \<Rightarrow> (uint64 \<Rightarrow> u8) \<Rightarrow> uint \<Rightarrow> uint \<Rightarrow> kstate
     \<Rightarrow> fault + (uint \<times> u8 list \<times> kstate)" where
  "xv6fs_writei i user_src src kmem off n s =
     (if off > i_size (itable s ! i) \<or> off + n < off then Inr (- 1, [], s)
      else if unat (off + n) > MAXFILE * BSIZE then Inr (- 1, [], s)
      else
        bindE (writei_loop i user_src src kmem off n 0 [] s) (\<lambda>(tot, off', wr, s1).
          let s2 = (if off' > i_size (itable s1 ! i)
                    then upd_inode i (\<lambda>ino. ino\<lparr>i_size := off'\<rparr>) s1 else s1)
          in bindE (xv6fs_iupdate i s2) (\<lambda>s3. Inr (tot, wr, s3))))"

subsection \<open>What the block layer leaves unchanged\<close>

lemma bwrite_only_disk: "bwrite dev bno data s = s\<lparr>disk := disk (bwrite dev bno data s)\<rparr>"
  by (simp add: bwrite_def)

lemma bwrite_fields [simp]:
  "itable (bwrite dev bno data s) = itable s"
  "sb (bwrite dev bno data s) = sb s"
  "cwd (bwrite dev bno data s) = cwd s"
  "umem (bwrite dev bno data s) = umem s"
  by (simp_all add: bwrite_def)

lemma bzero_fields [simp]:
  "itable (bzero dev bno s) = itable s"
  "sb (bzero dev bno s) = sb s"
  "cwd (bzero dev bno s) = cwd s"
  "umem (bzero dev bno s) = umem s"
  by (simp_all add: bzero_def)






lemma bfree_fields:
  "bfree dev b s = Inr s' \<Longrightarrow>
   itable s' = itable s \<and> sb s' = sb s \<and> cwd s' = cwd s \<and> umem s' = umem s"
  by (auto simp: bfree_def Let_def split: if_splits)

text \<open>Only the addresses of the payload differ between two inodes.\<close>

definition addrs_frame :: "inode \<Rightarrow> inode \<Rightarrow> bool" where
  "addrs_frame a b =
     (case i_private a of
        None \<Rightarrow> b = a
      | Some pa \<Rightarrow> \<exists>ad. b = a\<lparr>i_private := Some (pa\<lparr>x_addrs := ad\<rparr>)\<rparr>)"

lemma addrs_frame_refl [simp]: "addrs_frame a a"
  by (auto simp: addrs_frame_def split: option.splits intro: exI [of _ "x_addrs (the (i_private a))"])



text \<open>
  Between two states only the disk, the user memory and the addresses of the payload of
  slot \<open>i\<close> differ.
\<close>

definition content_frame :: "nat \<Rightarrow> kstate \<Rightarrow> kstate \<Rightarrow> bool" where
  "content_frame i s s' =
     (sb s' = sb s \<and> cwd s' = cwd s \<and> length (itable s') = length (itable s) \<and>
      (\<forall>j. j \<noteq> i \<longrightarrow> itable s' ! j = itable s ! j) \<and>
      addrs_frame (itable s ! i) (itable s' ! i))"

lemma content_frame_refl [simp]: "content_frame i s s"
  by (simp add: content_frame_def)


lemma content_frame_fields:
  "sb s' = sb s \<Longrightarrow> cwd s' = cwd s \<Longrightarrow> itable s' = itable s \<Longrightarrow> content_frame i s s'"
  by (simp add: content_frame_def)


lemma set_addr_umem [simp]: "umem (set_addr i k a s) = umem s"
  by (simp add: set_addr_def)

text \<open>The frame of the block map: the user memory is untouched as well.\<close>

definition kframe :: "nat \<Rightarrow> kstate \<Rightarrow> kstate \<Rightarrow> bool" where
  "kframe i s s' = (content_frame i s s' \<and> umem s' = umem s)"

lemma kframe_refl [simp]: "kframe i s s"
  by (simp add: kframe_def)





lemma kframe_bfree: "bfree dev b s = Inr s' \<Longrightarrow> kframe i s s'"
  by (drule bfree_fields) (simp add: kframe_def content_frame_fields)



subsection \<open>The blocks of a file\<close>


lemma unat_of_nat_small: "n < 2 ^ 32 \<Longrightarrow> unat (of_nat n :: uint) = n"
  by (simp add: unat_of_nat take_bit_nat_eq_self)


subsection \<open>Properties of xv6fs_readi\<close>



lemma bmap_Inr_bound:
  "bmap i bn s = Inr (a, s') \<Longrightarrow> unat bn < MAXFILE"
proof -
  assume a: "bmap i bn s = Inr (a, s')"
  have "\<not> unat bn < NDIRECT \<Longrightarrow> unat (bn - of_nat NDIRECT) = unat bn - NDIRECT"
    by (simp add: NDIRECT_def unat_sub word_le_nat_alt)
  with a show ?thesis
    by (auto simp: bmap_def MAXFILE_def split: option.splits if_splits)
qed


lemma sb_set_addr [simp]: "sb (set_addr i k a s) = sb s"
  by (simp add: set_addr_def)



lemma unat_div_512: "unat ((off::uint) div 512) = unat off div 512"
  by (simp add: unat_div)



lemma readi_loop_stop:
  "\<not> tot < n \<Longrightarrow> readi_loop i u dst off n tot out s = Inr (tot, out, s)"
  by (subst readi_loop.simps) simp

lemma readi_loop_step:
  "tot < n \<Longrightarrow> readi_loop i u dst off n tot out s =
     bindE (bmap i (off div 512) s) (\<lambda>(addr, s1).
          if addr = 0 then Inr (tot, out, s1)
          else
            let bp = bread (i_dev (itable s1 ! i)) addr s1;
                m = chunk n tot off;
                bytes = map (\<lambda>k. bp (unat (off mod 512) + k)) [0..<unat m]
            in case either_copyout u dst bytes s1 of
                 None \<Rightarrow> Inr (- 1, out, s1)
               | Some s2 \<Rightarrow>
                   readi_loop i u (dst + ucast m) (off + m) n (tot + m) (out @ bytes) s2)"
  by (subst readi_loop.simps) simp








subsection \<open>The dinode on disk after xv6fs_iupdate\<close>

lemma rd16_wr16_same [simp]: "rd16 (wr16 b off v) off = v"
  unfolding rd16_def wr16_def
  by simp (rule bit_word_eqI, auto simp: bit_simps)

lemma rd16_wr16_other:
  "off' + 2 \<le> off \<or> off + 2 \<le> off' \<Longrightarrow> rd16 (wr16 b off v) off' = rd16 b off'"
  by (auto simp: rd16_def wr16_def)

lemma rd16_wr32_other:
  "off' + 2 \<le> off \<or> off + 4 \<le> off' \<Longrightarrow> rd16 (wr32 b off v) off' = rd16 b off'"
  by (auto simp: rd16_def wr32_def)

lemma rd32_wr16_other:
  "off' + 4 \<le> off \<or> off + 2 \<le> off' \<Longrightarrow> rd32 (wr16 b off v) off' = rd32 b off'"
  by (auto simp: rd32_def wr16_def)

lemma rd32_wr32_other:
  "off' + 4 \<le> off \<or> off + 4 \<le> off' \<Longrightarrow> rd32 (wr32 b off v) off' = rd32 b off'"
  by (auto simp: rd32_def wr32_def)

lemma rd32_wr32_same [simp]: "rd32 (wr32 b off v) off = v"
proof -
  have "(ucast (ucast v :: u8) :: uint) OR push_bit 8 (ucast (ucast (drop_bit 8 v) :: u8))
      OR push_bit 16 (ucast (ucast (drop_bit 16 v) :: u8))
      OR push_bit 24 (ucast (ucast (drop_bit 24 v) :: u8)) = v"
  proof (rule bit_word_eqI)
    fix n assume "n < LENGTH(32)"
    then have n: "n < 32" by simp
    consider "n < 8" | "8 \<le> n \<and> n < 16" | "16 \<le> n \<and> n < 24" | "24 \<le> n \<and> n < 32"
      using n by linarith
    then show "bit ((ucast (ucast v :: u8) :: uint) OR push_bit 8 (ucast (ucast (drop_bit 8 v) :: u8))
      OR push_bit 16 (ucast (ucast (drop_bit 16 v) :: u8))
      OR push_bit 24 (ucast (ucast (drop_bit 24 v) :: u8))) n = bit v n"
      by cases (auto simp: bit_simps)
  qed
  then show ?thesis
    by (simp add: rd32_def wr32_def)
qed


lemma fold_wr32_rd16:
  "off + 2 \<le> base + 12 \<Longrightarrow>
   rd16 (fold (\<lambda>k b. wr32 b (base + 12 + 4 * k) (ad k)) [0..<n] b0) off = rd16 b0 off"
  by (induction n) (simp_all add: rd16_wr32_other)

lemma fold_wr32_rd32_low:
  "off + 4 \<le> base + 12 \<Longrightarrow>
   rd32 (fold (\<lambda>k b. wr32 b (base + 12 + 4 * k) (ad k)) [0..<n] b0) off = rd32 b0 off"
  by (induction n) (simp_all add: rd32_wr32_other)

lemma fold_wr32_rd32:
  "k < n \<Longrightarrow>
   rd32 (fold (\<lambda>k b. wr32 b (base + 12 + 4 * k) (ad k)) [0..<n] b0) (base + 12 + 4 * k) = ad k"
proof (induction n)
  case 0
  then show ?case by simp
next
  case (Suc n)
  show ?case
  proof (cases "k = n")
    case True
    then show ?thesis by simp
  next
    case False
    with Suc.prems have "k < n" by simp
    with Suc.IH show ?thesis by (simp add: rd32_wr32_other)
  qed
qed

text \<open>
  The dinode of slot \<open>i\<close> on disk holds what the in-memory inode holds: type, major,
  minor, nlink, size and the NDIRECT+1 addresses.
\<close>

definition dinode_synced :: "nat \<Rightarrow> kstate \<Rightarrow> bool" where
  "dinode_synced i s =
     (let ino = itable s ! i;
          bp = disk s (i_dev ino) (IBLOCK (i_inum ino) (sb s));
          base = dinode_off (i_inum ino)
      in case i_private ino of
           None \<Rightarrow> False
         | Some ip \<Rightarrow>
             rd16 bp base = i_type ino \<and> rd16 bp (base + 2) = x_major ip \<and>
             rd16 bp (base + 4) = x_minor ip \<and> rd16 bp (base + 6) = i_nlink ino \<and>
             rd32 bp (base + 8) = i_size ino \<and>
             list_all (\<lambda>k. rd32 bp (base + 12 + 4 * k) = x_addrs ip k) [0..<NDIRECT + 1])"

lemma put_dinode_rd16:
  "off + 2 \<le> base + 8 \<Longrightarrow>
   rd16 (put_dinode bp base ty major minor nlink sz addrs) off
     = rd16 (wr16 (wr16 (wr16 (wr16 bp base ty) (base + 2) major) (base + 4) minor)
          (base + 6) nlink) off"
  unfolding put_dinode_def
  by (subst fold_wr32_rd16) (simp_all add: rd16_wr32_other)

lemma put_dinode_fields:
  "rd16 (put_dinode bp base ty major minor nlink sz addrs) base = ty"
  "rd16 (put_dinode bp base ty major minor nlink sz addrs) (base + 2) = major"
  "rd16 (put_dinode bp base ty major minor nlink sz addrs) (base + 4) = minor"
  "rd16 (put_dinode bp base ty major minor nlink sz addrs) (base + 6) = nlink"
  "rd32 (put_dinode bp base ty major minor nlink sz addrs) (base + 8) = sz"
  "k < NDIRECT + 1 \<Longrightarrow>
   rd32 (put_dinode bp base ty major minor nlink sz addrs) (base + 12 + 4 * k) = addrs k"
proof -
  show "rd16 (put_dinode bp base ty major minor nlink sz addrs) base = ty"
    by (subst put_dinode_rd16) (simp_all add: rd16_wr16_other)
  show "rd16 (put_dinode bp base ty major minor nlink sz addrs) (base + 2) = major"
    by (subst put_dinode_rd16) (simp_all add: rd16_wr16_other del: add_2_eq_Suc add_2_eq_Suc')
  show "rd16 (put_dinode bp base ty major minor nlink sz addrs) (base + 4) = minor"
    by (subst put_dinode_rd16) (simp_all add: rd16_wr16_other del: add_2_eq_Suc add_2_eq_Suc')
  show "rd16 (put_dinode bp base ty major minor nlink sz addrs) (base + 6) = nlink"
    by (subst put_dinode_rd16) (simp_all add: rd16_wr16_other del: add_2_eq_Suc add_2_eq_Suc')
  show "rd32 (put_dinode bp base ty major minor nlink sz addrs) (base + 8) = sz"
    unfolding put_dinode_def by (subst fold_wr32_rd32_low) simp_all
  show "k < NDIRECT + 1 \<Longrightarrow>
    rd32 (put_dinode bp base ty major minor nlink sz addrs) (base + 12 + 4 * k) = addrs k"
    unfolding put_dinode_def by (rule fold_wr32_rd32)
qed

lemma iupdate_fields:
  "xv6fs_iupdate i s = Inr s' \<Longrightarrow>
   itable s' = itable s \<and> sb s' = sb s \<and> cwd s' = cwd s \<and> umem s' = umem s"
  by (auto simp: xv6fs_iupdate_def Let_def split: option.splits)

lemma iupdate_synced:
  "xv6fs_iupdate i s = Inr s' \<Longrightarrow> dinode_synced i s'"
  by (auto simp: xv6fs_iupdate_def dinode_synced_def Let_def bwrite_def bread_def
      put_dinode_fields list_all_iff simp del: add_2_eq_Suc add_2_eq_Suc' upt_Suc
      split: option.splits)


subsection \<open>Properties of xv6fs_writei\<close>










lemma upd_size_private [simp]:
  "i_private (tbl[i := (tbl ! i)\<lparr>i_size := x\<rparr>] ! i) = i_private (tbl ! i)"
  by (cases "i < length tbl") (simp_all add: list_update_beyond)



section \<open>Properties of iput (fs.c)\<close>

text \<open>
  What truncating and writing an inode leave as they are: the superblock and, of every
  slot, all the fields but \<open>size\<close> and the payload.
\<close>

definition meta :: "kstate \<Rightarrow>
    xv6fs_super_block \<times> (fsops option \<times> uint \<times> uint \<times> bool \<times> short \<times> uint \<times> short) list" where
  "meta s = (sb s, map (\<lambda>x. (i_op x, i_inum x, i_ref x, i_lock x, i_type x, i_dev x, i_nlink x))
                     (itable s))"

lemma map_update_same:
  "(\<And>x. f (g x) = f x) \<Longrightarrow> map f (xs[i := g (xs ! i)]) = map f xs"
  by (cases "i < length xs") (simp_all add: map_update list_update_beyond nth_equalityI nth_list_update)

lemma meta_set_addr [simp]: "meta (set_addr i k a s) = meta s"
  by (simp add: meta_def set_addr_def upd_inode_def map_update_same)

lemma meta_upd_size [simp]: "meta (upd_inode i (\<lambda>ino. ino\<lparr>i_size := z\<rparr>) s) = meta s"
  by (simp add: meta_def upd_inode_def map_update_same)

lemma meta_bfree: "bfree dev b s = Inr s' \<Longrightarrow> meta s' = meta s"
  by (drule bfree_fields) (simp add: meta_def)

lemma meta_iupdate: "xv6fs_iupdate i s = Inr s' \<Longrightarrow> meta s' = meta s"
  by (drule iupdate_fields) (simp add: meta_def)

lemma meta_itrunc_direct: "itrunc_direct i ks s = Inr s' \<Longrightarrow> meta s' = meta s"
proof (induction ks arbitrary: s)
  case Nil
  then show ?case by simp
next
  case (Cons k ks)
  from Cons.prems obtain ip where p: "i_private (itable s ! i) = Some ip"
    by (auto split: option.splits)
  show ?case
  proof (cases "x_addrs ip k \<noteq> 0")
    case True
    with Cons.prems p obtain s1 where b: "bfree (i_dev (itable s ! i)) (x_addrs ip k) s = Inr s1"
      and r: "itrunc_direct i ks (set_addr i k 0 s1) = Inr s'"
      by (auto simp: bindE_eq_Inr)
    from Cons.IH [OF r] meta_bfree [OF b] show ?thesis by simp
  next
    case False
    with Cons.prems p have "itrunc_direct i ks s = Inr s'" by simp
    then show ?thesis by (rule Cons.IH)
  qed
qed

lemma meta_itrunc_indirect: "itrunc_indirect dev a js s = Inr s' \<Longrightarrow> meta s' = meta s"
proof (induction js arbitrary: s)
  case Nil
  then show ?case by simp
next
  case (Cons j js)
  show ?case
  proof (cases "rd32 a (4 * j) \<noteq> 0")
    case True
    with Cons.prems obtain s1 where b: "bfree dev (rd32 a (4 * j)) s = Inr s1"
      and r: "itrunc_indirect dev a js s1 = Inr s'"
      by (auto simp: bindE_eq_Inr)
    from Cons.IH [OF r] meta_bfree [OF b] show ?thesis by simp
  next
    case False
    with Cons.prems have "itrunc_indirect dev a js s = Inr s'" by simp
    then show ?thesis by (rule Cons.IH)
  qed
qed

lemma meta_itrunc: "xv6fs_itrunc i s = Inr s' \<Longrightarrow> meta s' = meta s"
  unfolding xv6fs_itrunc_def
  by (auto simp: bindE_eq_Inr Let_def split: option.splits if_splits
      dest!: meta_itrunc_direct meta_itrunc_indirect meta_bfree meta_iupdate)

lemma meta_nth:
  "meta s' = meta s \<Longrightarrow> i < length (itable s) \<Longrightarrow>
   i < length (itable s') \<and> sb s' = sb s \<and>
   i_op (itable s' ! i) = i_op (itable s ! i) \<and> i_inum (itable s' ! i) = i_inum (itable s ! i) \<and>
   i_ref (itable s' ! i) = i_ref (itable s ! i) \<and> i_lock (itable s' ! i) = i_lock (itable s ! i) \<and>
   i_type (itable s' ! i) = i_type (itable s ! i) \<and> i_dev (itable s' ! i) = i_dev (itable s ! i) \<and>
   i_nlink (itable s' ! i) = i_nlink (itable s ! i)"
proof -
  assume m: "meta s' = meta s" and i: "i < length (itable s)"
  let ?f = "\<lambda>x. (i_op x, i_inum x, i_ref x, i_lock x, i_type x, i_dev x, i_nlink x)"
  from m have e: "map ?f (itable s') = map ?f (itable s)" and sb: "sb s' = sb s"
    by (simp_all add: meta_def)
  from e have l: "length (itable s') = length (itable s)"
    by (rule map_eq_imp_length_eq)
  with i have i': "i < length (itable s')" by simp
  from e have "map ?f (itable s') ! i = map ?f (itable s) ! i" by simp
  with i i' have "?f (itable s' ! i) = ?f (itable s ! i)" by simp
  with i' sb show ?thesis by simp
qed

lemma bindE_assoc: "bindE (bindE m f) g = bindE m (\<lambda>x. bindE (f x) g)"
  by (cases m) simp_all

lemma meta_op_trunc: "op_trunc i s = Inr s' \<Longrightarrow> meta s' = meta s"
  by (auto simp: op_trunc_def split: option.splits fsops.splits dest: meta_itrunc)

lemma meta_op_write_inode: "op_write_inode i s = Inr s' \<Longrightarrow> meta s' = meta s"
  by (auto simp: op_write_inode_def split: option.splits fsops.splits dest: meta_iupdate)

text \<open>
  The first sequence of iput, from the state \<open>s1\<close> in which the lock has been taken, and
  the second sequence, from \<open>s6\<close>.
\<close>

definition iput_free :: "nat \<Rightarrow> kstate \<Rightarrow> fault + kstate" where
  "iput_free i s1 =
     bindE (op_trunc i (upd_inode i (\<lambda>ino. ino\<lparr>i_type := 0\<rparr>) s1)) (\<lambda>s2.
     bindE (op_write_inode i s2) (\<lambda>s3.
     bindE (op_free_inode i s3) (\<lambda>s4. Inr (releasesleep i s4))))"

definition iput_release :: "nat \<Rightarrow> kstate \<Rightarrow> fault + kstate" where
  "iput_release i s6 =
     bindE (op_write_inode i s6) (\<lambda>s7.
     bindE (op_release_inode i s7) (\<lambda>s8. Inr (releasesleep i s8)))"

lemma iput_free_props:
  assumes v: "i < length (itable s)" and a: "acquiresleep i s = Inr s1"
    and f: "iput_free i s1 = Inr s5"
  shows "i < length (itable s5)" "i_ref (itable s5 ! i) = i_ref (itable s ! i)"
    "i_nlink (itable s5 ! i) = i_nlink (itable s ! i)"
    "i_private (itable s5 ! i) = None" "i_type (itable s5 ! i) = 0"
    "\<not> i_lock (itable s5 ! i)"
    "rd16 (disk s5 (i_dev (itable s ! i)) (IBLOCK (i_inum (itable s ! i)) (sb s)))
       (dinode_off (i_inum (itable s ! i))) = 0"
    "rd16 (disk s5 (i_dev (itable s ! i)) (IBLOCK (i_inum (itable s ! i)) (sb s)))
       (dinode_off (i_inum (itable s ! i)) + 6) = i_nlink (itable s ! i)"
proof -
  define s0 where "s0 = upd_inode i (\<lambda>ino. ino\<lparr>i_type := 0\<rparr>) s1"
  from a have s1: "s1 = upd_inode i (\<lambda>ino. ino\<lparr>i_lock := True\<rparr>) s"
    by (auto simp: acquiresleep_def split: if_splits)
  from f obtain s2 s3 s4 where t: "op_trunc i s0 = Inr s2"
    and w: "op_write_inode i s2 = Inr s3" and fr: "op_free_inode i s3 = Inr s4"
    and s5: "s5 = releasesleep i s4"
    by (auto simp: iput_free_def bindE_eq_Inr s0_def)
  have v0: "i < length (itable s0)" using v by (simp add: s0_def s1)
  have f0: "i_ref (itable s0 ! i) = i_ref (itable s ! i)"
    "i_nlink (itable s0 ! i) = i_nlink (itable s ! i)" "i_type (itable s0 ! i) = 0"
    "i_dev (itable s0 ! i) = i_dev (itable s ! i)" "i_inum (itable s0 ! i) = i_inum (itable s ! i)"
    "sb s0 = sb s"
    using v by (simp_all add: s0_def s1)
  note m2 = meta_nth [OF meta_op_trunc [OF t] v0]
  then have v2: "i < length (itable s2)" by simp
  note m3 = meta_nth [OF meta_op_write_inode [OF w] v2]
  then have v3: "i < length (itable s3)" by simp
  from w have sy: "dinode_synced i s3"
    by (auto simp: op_write_inode_def split: option.splits fsops.splits dest: iupdate_synced)
  from fr have s4: "s4 = xv6fs_free_inode i s3"
    by (auto simp: op_free_inode_def split: option.splits fsops.splits)
  from sy have p3: "i_private (itable s3 ! i) \<noteq> None"
    by (auto simp: dinode_synced_def Let_def split: option.splits)
  from p3 v3 have it5: "itable s5 = (itable s3)[i := (itable s3 ! i)\<lparr>i_private := None, i_type := 0,
      i_lock := False\<rparr>]" and d5: "disk s5 = disk s3"
    by (simp_all add: s5 s4 releasesleep_def xv6fs_free_inode_def upd_inode_def)
  from v3 show "i < length (itable s5)" by (simp add: it5)
  from v3 m3 m2 f0 show "i_ref (itable s5 ! i) = i_ref (itable s ! i)"
    "i_nlink (itable s5 ! i) = i_nlink (itable s ! i)"
    by (simp_all add: it5)
  from v3 show "i_private (itable s5 ! i) = None" "i_type (itable s5 ! i) = 0"
    "\<not> i_lock (itable s5 ! i)"
    by (simp_all add: it5)
  from sy m3 m2 f0 show "rd16 (disk s5 (i_dev (itable s ! i)) (IBLOCK (i_inum (itable s ! i)) (sb s)))
       (dinode_off (i_inum (itable s ! i))) = 0"
    "rd16 (disk s5 (i_dev (itable s ! i)) (IBLOCK (i_inum (itable s ! i)) (sb s)))
       (dinode_off (i_inum (itable s ! i)) + 6) = i_nlink (itable s ! i)"
    by (auto simp: dinode_synced_def Let_def d5 split: option.splits)
qed

lemma iput_release_props:
  assumes v: "i < length (itable s)" and a: "acquiresleep i s = Inr s6"
    and f: "iput_release i s6 = Inr s9"
  shows "i < length (itable s9)" "i_ref (itable s9 ! i) = i_ref (itable s ! i)"
    "i_private (itable s9 ! i) = None" "i_type (itable s9 ! i) = 0"
    "\<not> i_lock (itable s9 ! i)"
    "rd16 (disk s9 (i_dev (itable s ! i)) (IBLOCK (i_inum (itable s ! i)) (sb s)))
       (dinode_off (i_inum (itable s ! i))) = i_type (itable s ! i)"
    "rd16 (disk s9 (i_dev (itable s ! i)) (IBLOCK (i_inum (itable s ! i)) (sb s)))
       (dinode_off (i_inum (itable s ! i)) + 6) = i_nlink (itable s ! i)"
proof -
  from a have s6: "s6 = upd_inode i (\<lambda>ino. ino\<lparr>i_lock := True\<rparr>) s"
    by (auto simp: acquiresleep_def split: if_splits)
  from f obtain s7 s8 where w: "op_write_inode i s6 = Inr s7"
    and r: "op_release_inode i s7 = Inr s8" and s9: "s9 = releasesleep i s8"
    by (auto simp: iput_release_def bindE_eq_Inr)
  have v6: "i < length (itable s6)" using v by (simp add: s6)
  have f6: "i_ref (itable s6 ! i) = i_ref (itable s ! i)"
    "i_nlink (itable s6 ! i) = i_nlink (itable s ! i)" "i_type (itable s6 ! i) = i_type (itable s ! i)"
    "i_dev (itable s6 ! i) = i_dev (itable s ! i)" "i_inum (itable s6 ! i) = i_inum (itable s ! i)"
    "sb s6 = sb s"
    using v by (simp_all add: s6)
  note m7 = meta_nth [OF meta_op_write_inode [OF w] v6]
  then have v7: "i < length (itable s7)" by simp
  from w have sy: "dinode_synced i s7"
    by (auto simp: op_write_inode_def split: option.splits fsops.splits dest: iupdate_synced)
  from r have s8: "s8 = xv6fs_release_inode i s7"
    by (auto simp: op_release_inode_def split: option.splits fsops.splits)
  from sy have p7: "i_private (itable s7 ! i) \<noteq> None"
    by (auto simp: dinode_synced_def Let_def split: option.splits)
  from p7 v7 have it9: "itable s9 = (itable s7)[i := (itable s7 ! i)\<lparr>i_private := None, i_type := 0,
      i_lock := False\<rparr>]" and d9: "disk s9 = disk s7"
    by (simp_all add: s9 s8 releasesleep_def xv6fs_release_inode_def upd_inode_def)
  from v7 show "i < length (itable s9)" by (simp add: it9)
  from v7 m7 f6 show "i_ref (itable s9 ! i) = i_ref (itable s ! i)"
    by (simp add: it9)
  from v7 show "i_private (itable s9 ! i) = None" "i_type (itable s9 ! i) = 0"
    "\<not> i_lock (itable s9 ! i)"
    by (simp_all add: it9)
  from sy m7 f6 show "rd16 (disk s9 (i_dev (itable s ! i)) (IBLOCK (i_inum (itable s ! i)) (sb s)))
       (dinode_off (i_inum (itable s ! i))) = i_type (itable s ! i)"
    "rd16 (disk s9 (i_dev (itable s ! i)) (IBLOCK (i_inum (itable s ! i)) (sb s)))
       (dinode_off (i_inum (itable s ! i)) + 6) = i_nlink (itable s ! i)"
    by (auto simp: dinode_synced_def Let_def d9 split: option.splits)
qed

lemma iput_alt:
  "iput i s =
     (if i_private (itable s ! i) = None then Inr s
      else
        bindE (if i_ref (itable s ! i) = 1 \<and> i_nlink (itable s ! i) = 0
               then bindE (acquiresleep i s) (iput_free i) else Inr s) (\<lambda>s5.
        bindE (if i_ref (itable s5 ! i) = 1 \<and> 0 < sint (i_nlink (itable s5 ! i))
               then bindE (acquiresleep i s5) (iput_release i) else Inr s5) (\<lambda>s9.
        Inr (upd_inode i (\<lambda>ino. ino\<lparr>i_ref := i_ref ino - 1\<rparr>) s9))))"
  unfolding iput_def iput_free_def iput_release_def by (rule refl)

lemma iput_cases:
  assumes v: "i < length (itable s)" and p: "i_private (itable s ! i) \<noteq> None"
  shows "i_ref (itable s ! i) = 1 \<and> i_nlink (itable s ! i) = 0 \<Longrightarrow>
           iput i s = bindE (acquiresleep i s) (\<lambda>s1. bindE (iput_free i s1) (\<lambda>s5.
                        Inr (upd_inode i (\<lambda>ino. ino\<lparr>i_ref := i_ref ino - 1\<rparr>) s5)))"
    and "i_ref (itable s ! i) = 1 \<and> 0 < sint (i_nlink (itable s ! i)) \<Longrightarrow>
           iput i s = bindE (acquiresleep i s) (\<lambda>s6. bindE (iput_release i s6) (\<lambda>s9.
                        Inr (upd_inode i (\<lambda>ino. ino\<lparr>i_ref := i_ref ino - 1\<rparr>) s9)))"
    and "\<not> (i_ref (itable s ! i) = 1 \<and>
             (i_nlink (itable s ! i) = 0 \<or> 0 < sint (i_nlink (itable s ! i)))) \<Longrightarrow>
           iput i s = Inr (upd_inode i (\<lambda>ino. ino\<lparr>i_ref := i_ref ino - 1\<rparr>) s)"
proof -
  from p obtain ip where q: "i_private (itable s ! i) = Some ip" by auto
  assume c: "i_ref (itable s ! i) = 1 \<and> i_nlink (itable s ! i) = 0"
  show "iput i s = bindE (acquiresleep i s) (\<lambda>s1. bindE (iput_free i s1) (\<lambda>s5.
                        Inr (upd_inode i (\<lambda>ino. ino\<lparr>i_ref := i_ref ino - 1\<rparr>) s5)))"
  proof (cases "acquiresleep i s")
    case (Inl e)
    with c show ?thesis by (simp add: iput_alt q)
  next
    case (Inr s1)
    show ?thesis
    proof (cases "iput_free i s1")
      case (Inl e)
      with c Inr show ?thesis by (simp add: iput_alt q)
    next
      case r: (Inr s5)
      from iput_free_props(3) [OF v Inr r] c have "i_nlink (itable s5 ! i) = 0" by simp
      with c Inr r show ?thesis by (simp add: iput_alt q)
    qed
  qed
next
  assume c: "i_ref (itable s ! i) = 1 \<and> 0 < sint (i_nlink (itable s ! i))"
  then have "i_nlink (itable s ! i) \<noteq> 0" by auto
  moreover from p obtain ip where "i_private (itable s ! i) = Some ip" by auto
  ultimately show "iput i s = bindE (acquiresleep i s) (\<lambda>s6. bindE (iput_release i s6) (\<lambda>s9.
                        Inr (upd_inode i (\<lambda>ino. ino\<lparr>i_ref := i_ref ino - 1\<rparr>) s9)))"
    using c by (simp add: iput_alt bindE_assoc)
next
  assume "\<not> (i_ref (itable s ! i) = 1 \<and>
             (i_nlink (itable s ! i) = 0 \<or> 0 < sint (i_nlink (itable s ! i))))"
  moreover from p obtain ip where "i_private (itable s ! i) = Some ip" by auto
  ultimately show "iput i s = Inr (upd_inode i (\<lambda>ino. ino\<lparr>i_ref := i_ref ino - 1\<rparr>) s)"
    by (auto simp: iput_alt)
qed

text \<open>
  C3, with the null payload set apart. For a slot \<open>i\<close> of the table: (1) when \<^verbatim>\<open>private\<close> is
  null, iput returns at once and nothing changes, \<open>ref\<close> included. When \<^verbatim>\<open>private\<close> is
  not null: (2) an iput that returns has taken exactly one from \<open>ref\<close>; (3) when
  \<open>ref = 1\<close> and \<open>nlink = 0\<close>, iput is the sequence: acquire the lock, \<open>type = 0\<close>, trunc,
  write_inode, free_inode, release the lock, \<^verbatim>\<open>ref--\<close>; (4) when \<open>ref = 1\<close> and \<open>nlink > 0\<close>
  it is the sequence: acquire, write_inode, release_inode, release, \<^verbatim>\<open>ref--\<close>; (5) in every
  other case it is \<^verbatim>\<open>ref--\<close> alone; (6) after either sequence the payload is gone, the
  type of the slot is 0, and the dinode on disk holds the link count of the inode and the
  type written last: 0 after the first sequence (the inode is free on disk), the type of
  the inode after the second.
\<close>

theorem iput_spec:
  assumes "i < length (itable s)"
  shows
  "(i_private (itable s ! i) = None \<longrightarrow> iput i s = Inr s) \<and>
   (i_private (itable s ! i) \<noteq> None \<longrightarrow>
      (\<forall>s'. iput i s = Inr s' \<longrightarrow> i_ref (itable s' ! i) = i_ref (itable s ! i) - 1) \<and>
      (i_ref (itable s ! i) = 1 \<and> i_nlink (itable s ! i) = 0 \<longrightarrow>
         iput i s =
           bindE (acquiresleep i s) (\<lambda>s1.
           bindE (op_trunc i (upd_inode i (\<lambda>ino. ino\<lparr>i_type := 0\<rparr>) s1)) (\<lambda>s2.
           bindE (op_write_inode i s2) (\<lambda>s3.
           bindE (op_free_inode i s3) (\<lambda>s4.
             Inr (upd_inode i (\<lambda>ino. ino\<lparr>i_ref := i_ref ino - 1\<rparr>) (releasesleep i s4))))))) \<and>
      (i_ref (itable s ! i) = 1 \<and> 0 < sint (i_nlink (itable s ! i)) \<longrightarrow>
         iput i s =
           bindE (acquiresleep i s) (\<lambda>s6.
           bindE (op_write_inode i s6) (\<lambda>s7.
           bindE (op_release_inode i s7) (\<lambda>s8.
             Inr (upd_inode i (\<lambda>ino. ino\<lparr>i_ref := i_ref ino - 1\<rparr>) (releasesleep i s8)))))) \<and>
      (\<not> (i_ref (itable s ! i) = 1 \<and>
           (i_nlink (itable s ! i) = 0 \<or> 0 < sint (i_nlink (itable s ! i)))) \<longrightarrow>
         iput i s = Inr (upd_inode i (\<lambda>ino. ino\<lparr>i_ref := i_ref ino - 1\<rparr>) s)) \<and>
      (i_ref (itable s ! i) = 1 \<and>
         (i_nlink (itable s ! i) = 0 \<or> 0 < sint (i_nlink (itable s ! i))) \<longrightarrow>
         (\<forall>s'. iput i s = Inr s' \<longrightarrow>
            i_private (itable s' ! i) = None \<and> i_type (itable s' ! i) = 0 \<and>
            \<not> i_lock (itable s' ! i) \<and>
            rd16 (disk s' (i_dev (itable s ! i)) (IBLOCK (i_inum (itable s ! i)) (sb s)))
               (dinode_off (i_inum (itable s ! i)))
              = (if i_nlink (itable s ! i) = 0 then 0 else i_type (itable s ! i)) \<and>
            rd16 (disk s' (i_dev (itable s ! i)) (IBLOCK (i_inum (itable s ! i)) (sb s)))
               (dinode_off (i_inum (itable s ! i)) + 6) = i_nlink (itable s ! i))))"
proof (intro conjI impI allI)
  assume "i_private (itable s ! i) = None"
  then show "iput i s = Inr s" by (simp add: iput_def)
next
  assume p: "i_private (itable s ! i) \<noteq> None"
  note c = iput_cases [OF assms p]
  {
    assume a: "i_ref (itable s ! i) = 1 \<and> i_nlink (itable s ! i) = 0"
    from c(1) [OF a] show "iput i s =
           bindE (acquiresleep i s) (\<lambda>s1.
           bindE (op_trunc i (upd_inode i (\<lambda>ino. ino\<lparr>i_type := 0\<rparr>) s1)) (\<lambda>s2.
           bindE (op_write_inode i s2) (\<lambda>s3.
           bindE (op_free_inode i s3) (\<lambda>s4.
             Inr (upd_inode i (\<lambda>ino. ino\<lparr>i_ref := i_ref ino - 1\<rparr>) (releasesleep i s4))))))"
      by (simp add: iput_free_def bindE_assoc)
  next
    assume a: "i_ref (itable s ! i) = 1 \<and> 0 < sint (i_nlink (itable s ! i))"
    from c(2) [OF a] show "iput i s =
           bindE (acquiresleep i s) (\<lambda>s6.
           bindE (op_write_inode i s6) (\<lambda>s7.
           bindE (op_release_inode i s7) (\<lambda>s8.
             Inr (upd_inode i (\<lambda>ino. ino\<lparr>i_ref := i_ref ino - 1\<rparr>) (releasesleep i s8)))))"
      by (simp add: iput_release_def bindE_assoc)
  next
    assume a: "\<not> (i_ref (itable s ! i) = 1 \<and>
           (i_nlink (itable s ! i) = 0 \<or> 0 < sint (i_nlink (itable s ! i))))"
    from c(3) [OF a] show "iput i s = Inr (upd_inode i (\<lambda>ino. ino\<lparr>i_ref := i_ref ino - 1\<rparr>) s)" .
  next
    fix s'
    assume r: "iput i s = Inr s'"
    show "i_ref (itable s' ! i) = i_ref (itable s ! i) - 1"
    proof (cases "i_ref (itable s ! i) = 1 \<and> i_nlink (itable s ! i) = 0")
      case True
      from r c(1) [OF True] obtain s1 s5 where "acquiresleep i s = Inr s1"
        "iput_free i s1 = Inr s5" "s' = upd_inode i (\<lambda>ino. ino\<lparr>i_ref := i_ref ino - 1\<rparr>) s5"
        by (auto simp: bindE_eq_Inr)
      with iput_free_props(1,2) [OF assms, of s1 s5] show ?thesis by simp
    next
      case n1: False
      show ?thesis
      proof (cases "i_ref (itable s ! i) = 1 \<and> 0 < sint (i_nlink (itable s ! i))")
        case True
        from r c(2) [OF True] obtain s6 s9 where "acquiresleep i s = Inr s6"
          "iput_release i s6 = Inr s9" "s' = upd_inode i (\<lambda>ino. ino\<lparr>i_ref := i_ref ino - 1\<rparr>) s9"
          by (auto simp: bindE_eq_Inr)
        with iput_release_props(1,2) [OF assms, of s6 s9] show ?thesis by simp
      next
        case False
        with n1 r c(3) assms show ?thesis by auto
      qed
    qed
  next
    fix s'
    assume a: "i_ref (itable s ! i) = 1 \<and>
         (i_nlink (itable s ! i) = 0 \<or> 0 < sint (i_nlink (itable s ! i)))"
    assume r: "iput i s = Inr s'"
    have "i_private (itable s' ! i) = None \<and> i_type (itable s' ! i) = 0 \<and>
            \<not> i_lock (itable s' ! i) \<and>
            rd16 (disk s' (i_dev (itable s ! i)) (IBLOCK (i_inum (itable s ! i)) (sb s)))
               (dinode_off (i_inum (itable s ! i)))
              = (if i_nlink (itable s ! i) = 0 then 0 else i_type (itable s ! i)) \<and>
            rd16 (disk s' (i_dev (itable s ! i)) (IBLOCK (i_inum (itable s ! i)) (sb s)))
               (dinode_off (i_inum (itable s ! i)) + 6) = i_nlink (itable s ! i)"
    proof (cases "i_nlink (itable s ! i) = 0")
      case True
      with a have t: "i_ref (itable s ! i) = 1 \<and> i_nlink (itable s ! i) = 0" by simp
      from r c(1) [OF t] obtain s1 s5 where q: "acquiresleep i s = Inr s1"
        "iput_free i s1 = Inr s5" and s': "s' = upd_inode i (\<lambda>ino. ino\<lparr>i_ref := i_ref ino - 1\<rparr>) s5"
        by (auto simp: bindE_eq_Inr)
      from iput_free_props [OF assms q] True show ?thesis by (simp add: s')
    next
      case False
      with a have t: "i_ref (itable s ! i) = 1 \<and> 0 < sint (i_nlink (itable s ! i))" by simp
      from r c(2) [OF t] obtain s6 s9 where q: "acquiresleep i s = Inr s6"
        "iput_release i s6 = Inr s9" and s': "s' = upd_inode i (\<lambda>ino. ino\<lparr>i_ref := i_ref ino - 1\<rparr>) s9"
        by (auto simp: bindE_eq_Inr)
      from iput_release_props [OF assms q] False show ?thesis by (simp add: s')
    qed
    then show "i_private (itable s' ! i) = None" "i_type (itable s' ! i) = 0"
      "\<not> i_lock (itable s' ! i)"
      "rd16 (disk s' (i_dev (itable s ! i)) (IBLOCK (i_inum (itable s ! i)) (sb s)))
               (dinode_off (i_inum (itable s ! i)))
              = (if i_nlink (itable s ! i) = 0 then 0 else i_type (itable s ! i))"
      "rd16 (disk s' (i_dev (itable s ! i)) (IBLOCK (i_inum (itable s ! i)) (sb s)))
               (dinode_off (i_inum (itable s ! i)) + 6) = i_nlink (itable s ! i)"
      by simp_all
  }
qed

theorem iput_spec_witness:
  "iput 0 (ex_state [ex_inode 1 7 3]) = Inr (ex_state [ex_inode 1 7 3]) \<and>
   iput 0 (ex_disk_state [(ex_file 5 ((\<lambda>k. 0)(0 := 9)))\<lparr>i_ref := 2\<rparr>])
     = Inr (ex_disk_state [(ex_file 5 ((\<lambda>k. 0)(0 := 9)))\<lparr>i_ref := 1\<rparr>]) \<and>
   map_sum id (\<lambda>s'. (i_ref (itable s' ! 0), i_private (itable s' ! 0) = None,
                       i_type (itable s' ! 0), i_lock (itable s' ! 0),
                       rd16 (disk s' 1 6) (448 + 6)))
     (iput 0 (ex_disk_state [ex_file 5 ((\<lambda>k. 0)(0 := 9))]))
     = Inr (0, True, 0, False, 1)"
proof -
  let ?a = "ex_state [ex_inode 1 7 3]"
  let ?b = "ex_disk_state [(ex_file 5 ((\<lambda>k. 0)(0 := 9)))\<lparr>i_ref := 2\<rparr>]"
  let ?c = "ex_disk_state [ex_file 5 ((\<lambda>k. 0)(0 := 9))]"
  have fa: "0 < length (itable ?a)" "i_private (itable ?a ! 0) = None"
    by (simp_all add: ex_state_def ex_inode_def)
  have fb: "0 < length (itable ?b)" "i_private (itable ?b ! 0) \<noteq> None"
    "i_ref (itable ?b ! 0) = 2"
    by (simp_all add: ex_disk_state_def ex_state_def ex_file_def ex_inode_def)
  have fc: "0 < length (itable ?c)" "i_private (itable ?c ! 0) \<noteq> None"
    "i_ref (itable ?c ! 0) = 1" "i_nlink (itable ?c ! 0) = 1" "i_dev (itable ?c ! 0) = 1"
    "i_inum (itable ?c ! 0) = 7" "sb ?c = ex_sb" "i_type (itable ?c ! 0) = 2"
    "i_op (itable ?c ! 0) = Some XV6FS_OPS" "\<not> i_lock (itable ?c ! 0)"
    by (simp_all add: ex_disk_state_def ex_state_def ex_file_def ex_inode_def)
  from iput_spec [where i = 0 and s = ?a] fa
  have 1: "iput 0 ?a = Inr ?a" by simp
  from iput_spec [where i = 0 and s = ?b] fb
  have "iput 0 ?b = Inr (upd_inode 0 (\<lambda>ino. ino\<lparr>i_ref := i_ref ino - 1\<rparr>) ?b)" by simp
  then have 2: "iput 0 ?b = Inr (ex_disk_state [(ex_file 5 ((\<lambda>k. 0)(0 := 9)))\<lparr>i_ref := 1\<rparr>])"
    by (simp add: upd_inode_def ex_disk_state_def ex_state_def ex_file_def ex_inode_def)
  note sp = iput_spec [where i = 0 and s = ?c]
  from sp fc have "iput 0 ?c =
           bindE (acquiresleep 0 ?c) (\<lambda>s6.
           bindE (op_write_inode 0 s6) (\<lambda>s7.
           bindE (op_release_inode 0 s7) (\<lambda>s8.
             Inr (upd_inode 0 (\<lambda>ino. ino\<lparr>i_ref := i_ref ino - 1\<rparr>) (releasesleep 0 s8)))))"
    by simp
  then obtain sc where r: "iput 0 ?c = Inr sc"
    by (simp add: acquiresleep_def op_write_inode_def op_release_inode_def xv6fs_iupdate_def
        Let_def ex_disk_state_def ex_state_def ex_file_def ex_inode_def)
  from sp fc r have "i_ref (itable sc ! 0) = 0 \<and> i_private (itable sc ! 0) = None \<and>
      i_type (itable sc ! 0) = 0 \<and> \<not> i_lock (itable sc ! 0) \<and>
      rd16 (disk sc 1 (IBLOCK 7 ex_sb)) (dinode_off 7 + 6) = 1"
    by simp
  then have 3: "map_sum id (\<lambda>s'. (i_ref (itable s' ! 0), i_private (itable s' ! 0) = None,
                       i_type (itable s' ! 0), i_lock (itable s' ! 0),
                       rd16 (disk s' 1 6) (448 + 6))) (iput 0 ?c) = Inr (0, True, 0, False, 1)"
    by (simp add: r IBLOCK_def ex_sb_def dinode_off_def IPB_def)
  from 1 2 3 show ?thesis by simp
qed

section \<open>The file layer: fileread (file.c)\<close>

text \<open>
  Modelled from the spec: \<^verbatim>\<open>struct xv6fs_file\<close> (xv6fs/file.h is absent), the payload of
  \<^verbatim>\<open>file->private\<close>: the type discriminator and the major device number that xv6fs_open
  stores. \<^verbatim>\<open>FD_DEVICE\<close> is the fourth name of xv6's \<^verbatim>\<open>enum { FD_NONE, FD_PIPE, FD_INODE,
  FD_DEVICE }\<close>, and \<^verbatim>\<open>CONSOLE\<close> is major number 1 there.
\<close>

record xv6fs_file =
  xf_type :: uint
  xf_major :: short

definition FD_DEVICE :: short where
  "FD_DEVICE = 3"

definition CONSOLE :: nat where
  "CONSOLE = 1"

text \<open>
  \<^verbatim>\<open>struct file\<close> (vfs.h). \<^verbatim>\<open>readable\<close> and \<^verbatim>\<open>writable\<close> are \<^verbatim>\<open>char\<close> flags (true when
  not 0); \<^verbatim>\<open>off\<close> is an \<^verbatim>\<open>int\<close>, as its 32 bits; \<open>None\<close> is a null \<^verbatim>\<open>inode\<close> or \<^verbatim>\<open>private\<close>.
\<close>

record vfs_file =
  f_op :: "fsops option"
  f_ref :: int
  f_off :: uint
  f_readable :: bool
  f_writable :: bool
  f_inode :: "nat option"
  f_private :: "xv6fs_file option"

text \<open>
  \<^verbatim>\<open>struct devsw devsw[NDEV]\<close>: for each major number the driver's
  \<^verbatim>\<open>read(user_dst, addr, n)\<close>, \<open>None\<close> where the pointer is null. The drivers are
  external: a driver is any function of the state.
\<close>

type_synonym devsw_read = "bool \<Rightarrow> uint64 \<Rightarrow> uint \<Rightarrow> kstate \<Rightarrow> fault + (uint \<times> kstate)"

text \<open>\<^verbatim>\<open>ino->op->read(ino, user_dst, dst, off, n)\<close>.\<close>

definition op_read ::
  "nat \<Rightarrow> bool \<Rightarrow> uint64 \<Rightarrow> uint \<Rightarrow> uint \<Rightarrow> kstate \<Rightarrow> fault + (uint \<times> kstate)" where
  "op_read i user_dst dst off n s =
     (case i_op (itable s ! i) of
        None \<Rightarrow> Inl NullDeref
      | Some XV6FS_OPS \<Rightarrow>
          bindE (xv6fs_readi i user_dst dst off n s) (\<lambda>(r, out, s'). Inr (r, s')))"

text \<open>
  \<^verbatim>\<open>fileread(f, addr, n)\<close>: the \<^verbatim>\<open>int\<close> returned, the file afterwards (only \<^verbatim>\<open>off\<close>
  changes) and the state. \<^verbatim>\<open>r > 0\<close> is a signed comparison.
\<close>

definition fileread ::
  "(nat \<Rightarrow> devsw_read option) \<Rightarrow> vfs_file \<Rightarrow> uint64 \<Rightarrow> uint \<Rightarrow> kstate
     \<Rightarrow> fault + (uint \<times> vfs_file \<times> kstate)" where
  "fileread devsw f addr n s =
     (if \<not> f_readable f then Inr (- 1, f, s)
      else
        case f_inode f of
          None \<Rightarrow> Inl NullDeref
        | Some ip \<Rightarrow>
            if i_type (itable s ! ip) = FD_DEVICE then
              (case devsw CONSOLE of
                 None \<Rightarrow> Inl NullDeref
               | Some rd \<Rightarrow> bindE (rd True addr n s) (\<lambda>(r, s1). Inr (r, f, s1)))
            else
              bindE (ilock ip s) (\<lambda>s1.
              bindE (op_read ip True addr (f_off f) n s1) (\<lambda>(r, s2).
                let f' = (if 0 < sint r then f\<lparr>f_off := f_off f + r\<rparr> else f)
                in bindE (iunlock ip s2) (\<lambda>s3. Inr (r, f', s3)))))"

text \<open>
  A device file of major number 2 and two drivers: the console (major 1) reads 11 bytes,
  the driver of major 2 reads 22.
\<close>

definition ex_devsw :: "nat \<Rightarrow> devsw_read option" where
  "ex_devsw major =
     (if major = 1 then Some (\<lambda>user_dst addr n s. Inr (11, s))
      else if major = 2 then Some (\<lambda>user_dst addr n s. Inr (22, s))
      else None)"

definition ex_devfile :: vfs_file where
  "ex_devfile =
     \<lparr>f_op = Some XV6FS_OPS, f_ref = 1, f_off = 0, f_readable = True, f_writable = True,
      f_inode = Some 0, f_private = Some \<lparr>xf_type = 3, xf_major = 2\<rparr>\<rparr>"

text \<open>
  C4 as stated fails: a device file is read through \<^verbatim>\<open>devsw[CONSOLE]\<close>, not through the
  entry of its own major number. For the file of major 2 the console driver answers (11),
  not the driver of major 2 (22).
\<close>

theorem fileread_major_counterexample:
  "map_sum id fst (fileread ex_devsw ex_devfile 0 5
      (ex_state [(ex_inode 1 7 1)\<lparr>i_type := T_DEVICE\<rparr>])) = Inr 11 \<and>
   map_option xf_major (f_private ex_devfile) = Some 2 \<and>
   map_option (\<lambda>rd. map_sum id fst (rd True 0 5 (ex_state [(ex_inode 1 7 1)\<lparr>i_type := T_DEVICE\<rparr>])))
     (ex_devsw 2) = Some (Inr 22)"
  by (simp add: fileread_def ex_devsw_def ex_devfile_def ex_state_def ex_inode_def
      T_DEVICE_def FD_DEVICE_def CONSOLE_def)

text \<open>
  C4, amended. fileread returns -1 (and changes nothing) when the file is not readable.
  When the inode of the file has the type DEVICE, the read goes to the driver
  \<^verbatim>\<open>devsw[CONSOLE]\<close>, whatever the major number of the file, and its result is returned
  with \<^verbatim>\<open>off\<close> untouched. Otherwise fileread returns exactly when ilock, the \<^verbatim>\<open>read\<close> of
  the inode's operation table at offset \<^verbatim>\<open>f->off\<close> and iunlock return; its result is
  the result \<open>r\<close> of that read, and \<^verbatim>\<open>f->off\<close> has grown by \<open>r\<close> exactly when \<open>r > 0\<close>.
\<close>

theorem fileread_spec:
  "(\<not> f_readable f \<longrightarrow> fileread devsw f addr n s = Inr (- 1, f, s)) \<and>
   (f_readable f \<and> f_inode f = Some ip \<and> i_type (itable s ! ip) = T_DEVICE \<and>
    devsw CONSOLE = Some rd \<longrightarrow>
      fileread devsw f addr n s = map_sum id (\<lambda>(r, s1). (r, f, s1)) (rd True addr n s)) \<and>
   (f_readable f \<and> f_inode f = Some ip \<and> i_type (itable s ! ip) \<noteq> T_DEVICE \<longrightarrow>
      (\<forall>r f' s'. fileread devsw f addr n s = Inr (r, f', s') \<longleftrightarrow>
         (\<exists>s1 s2. ilock ip s = Inr s1 \<and> op_read ip True addr (f_off f) n s1 = Inr (r, s2) \<and>
            iunlock ip s2 = Inr s' \<and>
            f' = f\<lparr>f_off := (if 0 < sint r then f_off f + r else f_off f)\<rparr>)))"
proof (intro conjI impI allI)
  assume "\<not> f_readable f"
  then show "fileread devsw f addr n s = Inr (- 1, f, s)"
    by (simp add: fileread_def)
next
  assume "f_readable f \<and> f_inode f = Some ip \<and> i_type (itable s ! ip) = T_DEVICE \<and>
    devsw CONSOLE = Some rd"
  then show "fileread devsw f addr n s = map_sum id (\<lambda>(r, s1). (r, f, s1)) (rd True addr n s)"
    by (cases "rd True addr n s") (auto simp: fileread_def T_DEVICE_def FD_DEVICE_def)
next
  fix r f' s'
  assume a: "f_readable f \<and> f_inode f = Some ip \<and> i_type (itable s ! ip) \<noteq> T_DEVICE"
  then have "fileread devsw f addr n s =
      bindE (ilock ip s) (\<lambda>s1.
      bindE (op_read ip True addr (f_off f) n s1) (\<lambda>(r, s2).
        bindE (iunlock ip s2) (\<lambda>s3.
          Inr (r, f\<lparr>f_off := (if 0 < sint r then f_off f + r else f_off f)\<rparr>, s3))))"
    by (auto simp: fileread_def T_DEVICE_def FD_DEVICE_def Let_def
        intro!: bindE_cong split: prod.splits)
  then show "fileread devsw f addr n s = Inr (r, f', s') \<longleftrightarrow>
         (\<exists>s1 s2. ilock ip s = Inr s1 \<and> op_read ip True addr (f_off f) n s1 = Inr (r, s2) \<and>
            iunlock ip s2 = Inr s' \<and>
            f' = f\<lparr>f_off := (if 0 < sint r then f_off f + r else f_off f)\<rparr>)"
    by (auto simp: bindE_eq_Inr)
qed

text \<open>
  A file that is not readable, the device file above, and three bytes read at offset 1 of
  the file of five bytes into mapped user memory.
\<close>

definition ex_regfile :: vfs_file where
  "ex_regfile =
     \<lparr>f_op = Some XV6FS_OPS, f_ref = 1, f_off = 1, f_readable = True, f_writable = True,
      f_inode = Some 0, f_private = Some \<lparr>xf_type = 2, xf_major = 0\<rparr>\<rparr>"

theorem fileread_spec_witness:
  "map_sum id (\<lambda>(r, f', s'). (r, f_off f'))
     (fileread ex_devsw (ex_regfile\<lparr>f_readable := False\<rparr>) 0 3
        ((ex_disk_state [ex_file 5 ((\<lambda>k. 0)(0 := 9))])\<lparr>umem := (\<lambda>a. Some 0)\<rparr>))
     = Inr (- 1, 1) \<and>
   map_sum id (\<lambda>(r, f', s'). (r, f_off f'))
     (fileread ex_devsw ex_devfile 0 5 (ex_state [(ex_inode 1 7 1)\<lparr>i_type := T_DEVICE\<rparr>]))
     = Inr (11, 0) \<and>
   map_sum id (\<lambda>(r, f', s'). (r, f_off f'))
     (fileread ex_devsw ex_regfile 0 3
        ((ex_disk_state [ex_file 5 ((\<lambda>k. 0)(0 := 9))])\<lparr>umem := (\<lambda>a. Some 0)\<rparr>))
     = Inr (3, 4)"
proof -
  let ?s = "(ex_disk_state [ex_file 5 ((\<lambda>k. 0)(0 := 9))])\<lparr>umem := (\<lambda>a. Some 0)\<rparr>"
  let ?d = "ex_state [(ex_inode 1 7 1)\<lparr>i_type := T_DEVICE\<rparr>]"
  have e: "map_sum id (\<lambda>(r, f', s'). (r, f_off f')) (fileread ex_devsw ex_regfile 0 3 ?s)
      = Inr (3, 4)"
    by (simp add: fileread_def ilock_def iunlock_def acquiresleep_def releasesleep_def
        holdingsleep_def op_read_def upd_inode_def
        xv6fs_readi_def readi_loop.simps bmap_def chunk_def either_copyout_def
        bread_def ex_disk_state_def ex_state_def ex_file_def ex_inode_def ex_payload_def
        ex_regfile_def NDIRECT_def Let_def upt_rec FD_DEVICE_def)
  from fileread_spec [where f = "ex_regfile\<lparr>f_readable := False\<rparr>" and devsw = ex_devsw
      and addr = 0 and n = 3 and s = ?s]
  have 1: "map_sum id (\<lambda>(r, f', s'). (r, f_off f'))
      (fileread ex_devsw (ex_regfile\<lparr>f_readable := False\<rparr>) 0 3 ?s) = Inr (- 1, 1)"
    by (simp add: ex_regfile_def)
  from fileread_spec [where f = ex_devfile and devsw = ex_devsw and addr = 0 and n = 5
      and s = ?d and ip = 0 and rd = "\<lambda>user_dst addr n s. Inr (11, s)"]
  have 2: "map_sum id (\<lambda>(r, f', s'). (r, f_off f')) (fileread ex_devsw ex_devfile 0 5 ?d)
      = Inr (11, 0)"
    by (simp add: ex_devfile_def ex_devsw_def CONSOLE_def ex_state_def ex_inode_def)
  from 1 2 e show ?thesis by simp
qed

section \<open>Directories (xv6fs/defs.h)\<close>

text \<open>
  Modelled from the spec: \<^verbatim>\<open>strncmp\<close> and \<^verbatim>\<open>strncpy\<close> (string.c is absent), with the
  meaning of the C library. Reading a buffer beyond its bytes given here reads 0; the
  callers pass NUL-terminated strings or buffers of DIRSIZ bytes with the bound DIRSIZ.
\<close>

fun strncmp :: "u8 list \<Rightarrow> u8 list \<Rightarrow> nat \<Rightarrow> int" where
  "strncmp p q 0 = 0"
| "strncmp p q (Suc n) =
     (if deref p \<noteq> 0 \<and> deref p = deref q then strncmp (tl p) (tl q) n
      else int (unat (deref p)) - int (unat (deref q)))"

fun strncpy :: "u8 list \<Rightarrow> nat \<Rightarrow> u8 list" where
  "strncpy t 0 = []"
| "strncpy t (Suc n) =
     (if deref t \<noteq> 0 then deref t # strncpy (tl t) n else replicate (Suc n) 0)"

definition xv6fs_namecmp :: "u8 list \<Rightarrow> u8 list \<Rightarrow> int" where
  "xv6fs_namecmp s t = strncmp s t DIRSIZ"

text \<open>
  Modelled from the spec: the directory entry on disk, \<^verbatim>\<open>struct xv6fs_dentry\<close> (fs.h is
  absent): \<^verbatim>\<open>{inum: u16, name: [u8; 14]}\<close>, 16 bytes, given here as the 16 bytes.
\<close>

definition de_inum :: "u8 list \<Rightarrow> short" where
  "de_inum de = ucast (de ! 0) OR push_bit 8 (ucast (de ! 1))"

definition de_name :: "u8 list \<Rightarrow> u8 list" where
  "de_name de = drop 2 de"

definition mk_de :: "short \<Rightarrow> u8 list \<Rightarrow> u8 list" where
  "mk_de inum name = [ucast inum, ucast (drop_bit 8 inum)] @ name"

text \<open>
  A local variable of the kernel as a source of either_copyin: the kernel memory that
  holds \<open>bytes\<close> from address 0 on.
\<close>

definition kbuf :: "u8 list \<Rightarrow> uint64 \<Rightarrow> u8" where
  "kbuf bytes a = (if unat a < length bytes then bytes ! unat a else 0)"

text \<open>
  \<^verbatim>\<open>struct dentry\<close> (vfs.h), with the fields the code reads; a dentry comes from
  \<^verbatim>\<open>kalloc\<close> and is passed on by value here.
\<close>

record dentry =
  d_op :: "fsops option"
  d_parent :: "nat option"
  d_name :: "u8 list"
  d_inode :: "nat option"

lemma readi_16_bound:
  "xv6fs_readi i u dst off 16 s = Inr (16, de, s1) \<Longrightarrow> unat off < MAXFILE * BSIZE"
proof -
  assume a: "xv6fs_readi i u dst off 16 s = Inr (16, de, s1)"
  define n' where "n' = (if off + 16 > i_size (itable s ! i) then i_size (itable s ! i) - off else 16)"
  from a have l: "readi_loop i u dst off n' 0 [] s = Inr (16, de, s1)"
    unfolding xv6fs_readi_def Let_def n'_def by (auto split: if_splits)
  have "0 < n'"
  proof (rule ccontr)
    assume "\<not> 0 < n'"
    with l show False by (simp add: readi_loop_stop)
  qed
  with l obtain addr s2 where "bmap i (off div 512) s = Inr (addr, s2)"
    by (auto simp: readi_loop_step bindE_eq_Inr)
  from bmap_Inr_bound [OF this] show ?thesis
    by (simp add: unat_div_512 MAXFILE_def BSIZE_def NDIRECT_def NINDIRECT_def)
qed

lemma dir_off_decr:
  "unat (off::uint) < MAXFILE * BSIZE \<Longrightarrow>
   MAXFILE * BSIZE - unat (off + 16) < MAXFILE * BSIZE - unat off"
proof -
  assume a: "unat off < MAXFILE * BSIZE"
  then have "unat off + unat (16::uint) < 2 ^ 32"
    by (simp add: MAXFILE_def BSIZE_def NDIRECT_def NINDIRECT_def)
  then have "unat (off + 16) = unat off + 16"
    by (simp add: unat_add_lem [THEN iffD1])
  with a show ?thesis by simp
qed

text \<open>
  The loop of xv6fs_dirlookup over the entries of directory \<open>dp\<close> from offset \<open>off\<close>.
  The destination \<^verbatim>\<open>&de\<close> of readi is a kernel address, which the copy does not need;
  the 16 bytes read are the result of readi.
\<close>

function dirlookup_loop ::
  "nat \<Rightarrow> u8 list \<Rightarrow> uint \<Rightarrow> kstate \<Rightarrow> fault + (dentry option \<times> kstate)" where
  "dirlookup_loop dp name off s =
     (if off < i_size (itable s ! dp) then
        bindE (xv6fs_readi dp False 0 off 16 s) (\<lambda>(r, de, s1).
          if r \<noteq> 16 then Inl (Panic ''dirlookup read'')
          else if de_inum de = 0 then dirlookup_loop dp name (off + 16) s1
          else if xv6fs_namecmp name (de_name de) = 0 then
            bindE (xv6fs_geti (i_dev (itable s1 ! dp)) (ucast (de_inum de)) True s1)
              (\<lambda>(ino, s2).
                 let s3 = upd_inode ino (\<lambda>x. x\<lparr>i_op := i_op (itable s2 ! dp)\<rparr>) s2
                 in Inr (Some \<lparr>d_op = i_op (itable s3 ! dp), d_parent = Some dp,
                               d_name = strncpy name DIRSIZ, d_inode = Some ino\<rparr>, s3))
          else dirlookup_loop dp name (off + 16) s1)
      else Inr (None, s))"
  by pat_completeness auto
termination
  by (relation "measure (\<lambda>(dp, name, off, s). MAXFILE * BSIZE - unat off)")
    (auto dest!: readi_16_bound intro: dir_off_decr)

declare dirlookup_loop.simps [simp del]

definition xv6fs_dirlookup ::
  "nat \<Rightarrow> u8 list \<Rightarrow> kstate \<Rightarrow> fault + (dentry option \<times> kstate)" where
  "xv6fs_dirlookup dp name s =
     (if i_type (itable s ! dp) \<noteq> T_DIR then Inl (Panic ''dirlookup not DIR'')
      else dirlookup_loop dp name 0 s)"

text \<open>
  The second loop of xv6fs_link, which looks for an entry with \<^verbatim>\<open>inum == 0\<close>: the offset
  at which it ends.
\<close>

function link_scan :: "nat \<Rightarrow> uint \<Rightarrow> kstate \<Rightarrow> fault + (uint \<times> kstate)" where
  "link_scan dp off s =
     (if off < i_size (itable s ! dp) then
        bindE (xv6fs_readi dp False 0 off 16 s) (\<lambda>(r, de, s1).
          if r \<noteq> 16 then Inl (Panic ''dirlink read'')
          else if de_inum de = 0 then Inr (off, s1)
          else link_scan dp (off + 16) s1)
      else Inr (off, s))"
  by pat_completeness auto
termination
  by (relation "measure (\<lambda>(dp, off, s). MAXFILE * BSIZE - unat off)")
    (auto dest!: readi_16_bound intro: dir_off_decr)

declare link_scan.simps [simp del]

text \<open>
  \<^verbatim>\<open>xv6fs_link(target)\<close>: the \<^verbatim>\<open>int\<close> returned and the state. fs/defs.h defines
  \<^verbatim>\<open>LINK\<close>, so the function starts by printing \<^verbatim>\<open>dp->inum\<close> and \<^verbatim>\<open>son->inum\<close>, which
  dereferences both pointers; what is printed is not modelled.
\<close>

definition xv6fs_link :: "dentry \<Rightarrow> kstate \<Rightarrow> fault + (uint \<times> kstate)" where
  "xv6fs_link target s =
     (case (d_parent target, d_inode target) of
        (Some dp, Some son) \<Rightarrow>
          let name = strncpy (d_name target) DIRSIZ in
          bindE (xv6fs_dirlookup dp name s) (\<lambda>(dd, s1).
            case (case dd of None \<Rightarrow> None | Some d \<Rightarrow> d_inode d) of
              Some ino \<Rightarrow> bindE (iput ino s1) (\<lambda>s2. Inr (- 1, s2))
            | None \<Rightarrow>
                bindE (link_scan dp 0 s1) (\<lambda>(off, s2).
                  let de = mk_de (ucast (i_inum (itable s2 ! son))) (strncpy name DIRSIZ)
                  in bindE (xv6fs_writei dp False 0 (kbuf de) off 16 s2) (\<lambda>(r, wr, s3).
                       if r \<noteq> 16 then Inr (- 1, s3) else Inr (0, s3))))
      | _ \<Rightarrow> Inl NullDeref)"




subsection \<open>The content of a directory\<close>



































end
